(* ===== verification/Prelude.thy ===== *)
theory Prelude
  imports Main
begin

text \<open>
  The prelude of the development: the lemma collections every component adds to, and the facts
  about lists, association lists and sums that several components share.

  \<^item> \<open>res_simps\<close>: rules for programs that may raise (the sum type of \<open>PyRuntime\<close>);
  \<^item> \<open>text_simps\<close>: rules for the string functions of \<open>PyText\<close>;
  \<^item> \<open>io_simps\<close>: rules for programs that act on the outside world (\<open>World\<close>);
  \<^item> \<open>emits_intros\<close>: what the programs may record in the trace, per operation (\<open>Effects\<close>);
  \<^item> \<open>within_intros\<close>: the steps a program may take, per operation (\<open>Steps\<close>);
  \<^item> \<open>raises_intros\<close>: which exceptions a program may end with (\<open>Errors\<close>).
\<close>

named_theorems res_simps "rules for computations that may raise an exception"
named_theorems text_simps "rules for Python's string operations"
named_theorems io_simps "rules for computations that act on the world"
named_theorems emits_intros "which events a program may record"
named_theorems within_intros "which steps a program may take"
named_theorems raises_intros "which exceptions a program may end with"

section \<open>Lists\<close>

lemma dropWhile_neq_ConsD: "dropWhile (\<lambda>x. x \<noteq> c) xs = d # ys \<Longrightarrow> d = c"
  by (induction xs) (auto split: if_splits)

lemma takeWhile_neq_append: "c \<notin> set xs \<Longrightarrow> takeWhile (\<lambda>x. x \<noteq> c) (xs @ c # ys) = xs"
  by (induction xs) auto

lemma dropWhile_neq_append: "c \<notin> set xs \<Longrightarrow> dropWhile (\<lambda>x. x \<noteq> c) (xs @ c # ys) = c # ys"
  by (induction xs) auto

lemma takeWhile_append_stop:
  "(\<forall>x\<in>set xs. P x) \<Longrightarrow> (ys = [] \<or> \<not> P (hd ys)) \<Longrightarrow> takeWhile P (xs @ ys) = xs"
  by (induction xs) (auto intro: takeWhile_eq_Nil_iff [THEN iffD2])

lemma dropWhile_append_stop:
  "(\<forall>x\<in>set xs. P x) \<Longrightarrow> (ys = [] \<or> \<not> P (hd ys)) \<Longrightarrow> dropWhile P (xs @ ys) = ys"
  by (induction xs) (cases ys; auto)+

lemma length_dropWhile_less: "xs \<noteq> [] \<Longrightarrow> P (hd xs) \<Longrightarrow> length (dropWhile P xs) < length xs"
  by (cases xs) (auto intro: le_imp_less_Suc length_dropWhile_le)

lemma set_takeWhile_all: "x \<in> set (takeWhile P xs) \<Longrightarrow> P x"
  by (rule set_takeWhileD [THEN conjunct2])

text \<open>Stripping a known prefix, the test behind every literal of a regular expression.\<close>

fun strip_prefix :: "'a list \<Rightarrow> 'a list \<Rightarrow> 'a list option" where
  "strip_prefix [] ys = Some ys"
| "strip_prefix (x # xs) [] = None"
| "strip_prefix (x # xs) (y # ys) = (if x = y then strip_prefix xs ys else None)"

lemma strip_prefix_Some_iff: "strip_prefix xs ys = Some zs \<longleftrightarrow> ys = xs @ zs"
  by (induction xs ys rule: strip_prefix.induct) auto

lemma strip_prefix_append [simp]: "strip_prefix xs (xs @ ys) = Some ys"
  by (simp add: strip_prefix_Some_iff)

lemma strip_prefix_SomeD: "strip_prefix xs ys = Some zs \<Longrightarrow> ys = xs @ zs"
  by (simp add: strip_prefix_Some_iff)

text \<open>Occurrences of a word after a part free of one letter, unfolded at the first letter.\<close>

lemma occurs_Cons:
  "(\<exists>a b. c # t = a @ p @ b \<and> n \<notin> set a) \<longleftrightarrow>
     (\<exists>b. c # t = p @ b) \<or> (c \<noteq> n \<and> (\<exists>a b. t = a @ p @ b \<and> n \<notin> set a))"
proof
  assume "\<exists>a b. c # t = a @ p @ b \<and> n \<notin> set a"
  then obtain a b where ab: "c # t = a @ p @ b" "n \<notin> set a" by blast
  then show "(\<exists>b. c # t = p @ b) \<or> (c \<noteq> n \<and> (\<exists>a b. t = a @ p @ b \<and> n \<notin> set a))"
    by (cases a) auto
next
  assume "(\<exists>b. c # t = p @ b) \<or> (c \<noteq> n \<and> (\<exists>a b. t = a @ p @ b \<and> n \<notin> set a))"
  then show "\<exists>a b. c # t = a @ p @ b \<and> n \<notin> set a"
  proof (elim disjE conjE exE)
    fix b
    assume "c # t = p @ b"
    then show ?thesis by (intro exI [of _ "[]"] exI [of _ b]) simp
  next
    fix a b
    assume "c \<noteq> n" "t = a @ p @ b" "n \<notin> set a"
    then show ?thesis by (intro exI [of _ "c # a"] exI [of _ b]) simp
  qed
qed

lemma occurs_later_Cons:
  "(\<exists>a b. c # t = a @ p @ b \<and> a \<noteq> [] \<and> n \<notin> set a) \<longleftrightarrow>
     c \<noteq> n \<and> (\<exists>a b. t = a @ p @ b \<and> n \<notin> set a)"
proof
  assume "\<exists>a b. c # t = a @ p @ b \<and> a \<noteq> [] \<and> n \<notin> set a"
  then obtain a b where "c # t = a @ p @ b" "a \<noteq> []" "n \<notin> set a" by blast
  then show "c \<noteq> n \<and> (\<exists>a b. t = a @ p @ b \<and> n \<notin> set a)" by (cases a) auto
next
  assume "c \<noteq> n \<and> (\<exists>a b. t = a @ p @ b \<and> n \<notin> set a)"
  then obtain a b where "c \<noteq> n" "t = a @ p @ b" "n \<notin> set a" by blast
  then show "\<exists>a b. c # t = a @ p @ b \<and> a \<noteq> [] \<and> n \<notin> set a"
    by (intro exI [of _ "c # a"] exI [of _ b]) simp
qed

lemma first_sep_eq_iff:
  assumes "c \<notin> set a" "c \<notin> set x"
  shows "a @ c # b = x @ c # y \<longleftrightarrow> a = x \<and> b = y"
proof
  assume eq: "a @ c # b = x @ c # y"
  then have "a = x"
    using takeWhile_neq_append [OF assms(1), of b] takeWhile_neq_append [OF assms(2), of y] by simp
  with eq show "a = x \<and> b = y" by simp
qed simp

lemma first_sep_ex:
  "c \<notin> set a \<Longrightarrow> (\<exists>x y. a @ c # b = x @ c # y \<and> c \<notin> set x \<and> P x y) \<longleftrightarrow> P a b"
  using first_sep_eq_iff by metis

section \<open>Options\<close>

lemma not_None_obtain: "x \<noteq> None \<Longrightarrow> (\<And>y. x = Some y \<Longrightarrow> thesis) \<Longrightarrow> thesis"
  by auto

end
