(* ===== verification/PyText.thy ===== *)
theory PyText
  imports Prelude
begin

text \<open>
  Python strings as lists of characters, and the string operations of the standard library that
  the sources use: \<open>str.split\<close>, \<open>str.rsplit\<close>, \<open>str.join\<close>, \<open>str.strip\<close>, \<open>str.startswith\<close>,
  \<open>str.splitlines\<close> and the character classes \<open>\d\<close> and \<open>\w\<close> of \<open>re\<close>. A character of the
  model is a code point below 256; the classes are Python's on those code points.
\<close>

section \<open>Character classes\<close>

definition code :: "char \<Rightarrow> nat" where
  "code c = of_char c"

definition is_digit :: "char \<Rightarrow> bool" where
  "is_digit c \<longleftrightarrow> 48 \<le> code c \<and> code c \<le> 57"

definition is_ascii_letter :: "char \<Rightarrow> bool" where
  "is_ascii_letter c \<longleftrightarrow> (65 \<le> code c \<and> code c \<le> 90) \<or> (97 \<le> code c \<and> code c \<le> 122)"

text \<open>\<open>\w\<close> on a \<open>str\<close> pattern: \<open>str.isalnum\<close> or the underscore. Beyond ASCII this takes
  the feminine and masculine ordinals, the micro sign, the superscripts one to three, the vulgar
  fractions and the accented letters.\<close>

definition is_word :: "char \<Rightarrow> bool" where
  "is_word c \<longleftrightarrow> is_digit c \<or> is_ascii_letter c \<or> code c = 95
     \<or> code c \<in> {170, 178, 179, 181, 185, 186, 188, 189, 190}
     \<or> (192 \<le> code c \<and> code c \<noteq> 215 \<and> code c \<noteq> 247)"

text \<open>\<open>str.isspace\<close>, which \<open>str.strip\<close> uses.\<close>

definition is_space :: "char \<Rightarrow> bool" where
  "is_space c \<longleftrightarrow> (9 \<le> code c \<and> code c \<le> 13) \<or> (28 \<le> code c \<and> code c \<le> 32)
     \<or> code c = 133 \<or> code c = 160"

definition newline :: char where
  "newline = CHR 0x0A"

lemma is_digit_word [simp]: "is_digit c \<Longrightarrow> is_word c"
  by (simp add: is_word_def)

lemma is_ascii_letter_word [simp]: "is_ascii_letter c \<Longrightarrow> is_word c"
  by (simp add: is_word_def)

lemmas char_class_defs =
  is_digit_def is_ascii_letter_def is_word_def is_space_def code_def newline_def

section \<open>Splitting and joining on one separator character\<close>

text \<open>\<open>s.split(c)\<close>: every separator ends a piece, so the result is never empty.\<close>

fun split_on :: "'c \<Rightarrow> 'c list \<Rightarrow> 'c list list" where
  "split_on c [] = [[]]"
| "split_on c (x # xs) =
     (if x = c then [] # split_on c xs
      else (case split_on c xs of [] \<Rightarrow> [[x]] | w # ws \<Rightarrow> (x # w) # ws))"

text \<open>\<open>sep.join(ws)\<close>.\<close>

fun join_with :: "'c list \<Rightarrow> 'c list list \<Rightarrow> 'c list" where
  "join_with sep [] = []"
| "join_with sep [w] = w"
| "join_with sep (w # ws) = w @ sep @ join_with sep ws"

text \<open>\<open>s.split(c, n)\<close>: at most \<open>n\<close> splits, from the left.\<close>

fun split_max :: "nat \<Rightarrow> 'c \<Rightarrow> 'c list \<Rightarrow> 'c list list" where
  "split_max 0 c s = [s]"
| "split_max (Suc n) c s =
     (case dropWhile (\<lambda>x. x \<noteq> c) s of
        [] \<Rightarrow> [s]
      | _ # rest \<Rightarrow> takeWhile (\<lambda>x. x \<noteq> c) s # split_max n c rest)"

text \<open>\<open>s.rsplit(c, n)\<close>: the same from the right.\<close>

definition rsplit_max :: "nat \<Rightarrow> 'c \<Rightarrow> 'c list \<Rightarrow> 'c list list" where
  "rsplit_max n c s = rev (map rev (split_max n c (rev s)))"

lemma split_on_ne [simp]: "split_on c s \<noteq> []"
  by (induction s) (auto split: list.splits)

lemma join_with_Cons: "ws \<noteq> [] \<Longrightarrow> join_with sep (w # ws) = w @ sep @ join_with sep ws"
  by (cases ws) auto

lemma join_split_on: "join_with [c] (split_on c s) = s"
proof (induction s)
  case (Cons x xs)
  obtain w ws where ws: "split_on c xs = w # ws"
    using split_on_ne [of c xs] by (cases "split_on c xs") auto
  show ?case
  proof (cases "x = c")
    case True
    with Cons ws show ?thesis by simp
  next
    case False
    with Cons ws show ?thesis by (cases ws) auto
  qed
qed simp

lemma split_on_sep_free: "w \<in> set (split_on c s) \<Longrightarrow> c \<notin> set w"
  by (induction s arbitrary: w) (auto split: list.splits if_splits)

lemma split_on_free: "c \<notin> set s \<Longrightarrow> split_on c s = [s]"
  by (induction s) auto

lemma split_on_append_sep: "c \<notin> set w \<Longrightarrow> split_on c (w @ c # s) = w # split_on c s"
  by (induction w) auto

lemma split_on_join:
  "ws \<noteq> [] \<Longrightarrow> (\<forall>w\<in>set ws. c \<notin> set w) \<Longrightarrow> split_on c (join_with [c] ws) = ws"
proof (induction ws)
  case (Cons w ws)
  then show ?case
    by (cases ws) (auto simp: split_on_free split_on_append_sep join_with_Cons)
qed simp

text \<open>
  The interface of a separator: a splitting and a joining function that are inverse to each
  other. The paths (separator \<open>/\<close>) and the dotted override keys (separator \<open>.\<close>) both rely on it.
\<close>

locale splitter =
  fixes sep :: 'c
    and spl :: "'c list \<Rightarrow> 'c list list"
    and joi :: "'c list list \<Rightarrow> 'c list"
  assumes joi_spl: "joi (spl s) = s"
    and spl_joi: "ws \<noteq> [] \<Longrightarrow> (\<forall>w\<in>set ws. sep \<notin> set w) \<Longrightarrow> spl (joi ws) = ws"
    and spl_free: "w \<in> set (spl s) \<Longrightarrow> sep \<notin> set w"
    and spl_ne: "spl s \<noteq> []"
begin

lemma spl_inject: "spl s = spl t \<longleftrightarrow> s = t"
  by (metis joi_spl)

lemma joi_inject:
  "ws \<noteq> [] \<Longrightarrow> vs \<noteq> [] \<Longrightarrow> (\<forall>w\<in>set ws. sep \<notin> set w) \<Longrightarrow> (\<forall>w\<in>set vs. sep \<notin> set w)
   \<Longrightarrow> joi ws = joi vs \<longleftrightarrow> ws = vs"
  by (metis spl_joi)

lemma spl_surj: "ws \<noteq> [] \<Longrightarrow> (\<forall>w\<in>set ws. sep \<notin> set w) \<Longrightarrow> \<exists>s. spl s = ws"
  using spl_joi by blast

end

interpretation slash: splitter "CHR ''/''" "split_on (CHR ''/'')" "join_with ''/''"
  by unfold_locales (auto simp: join_split_on split_on_join dest: split_on_sep_free)

interpretation dot: splitter "CHR ''.''" "split_on (CHR ''.'')" "join_with ''.''"
  by unfold_locales (auto simp: join_split_on split_on_join dest: split_on_sep_free)

section \<open>Bounded splitting\<close>

lemma split_max_ne [simp]: "split_max n c s \<noteq> []"
  by (cases n) (auto split: list.splits)

lemma length_split_max: "length (split_max n c s) \<le> Suc n"
  by (induction n c s rule: split_max.induct) (auto split: list.splits)

lemma split_max_free: "c \<notin> set s \<Longrightarrow> split_max n c s = [s]"
proof (cases n)
  case (Suc m)
  assume "c \<notin> set s"
  then have e: "dropWhile (\<lambda>x. x \<noteq> c) s = []" by auto
  show ?thesis unfolding Suc split_max.simps e by simp
qed simp

lemma split_max_append:
  "c \<notin> set w \<Longrightarrow> split_max (Suc n) c (w @ c # s) = w # split_max n c s"
  by (simp add: dropWhile_neq_append takeWhile_neq_append)

end
