(* ===== verification/PyRuntime.thy ===== *)
theory PyRuntime
  imports PyText
begin

text \<open>
  The run-time values the programs share: the values an Hjson document decodes to, Python's
  dictionaries (insertion-ordered association lists, as \<open>dict\<close> keeps its keys in insertion
  order), the exceptions the sources raise or let through, and computations that may raise.
\<close>

section \<open>Dictionaries\<close>

type_synonym ('k, 'v) dict = "('k \<times> 'v) list"

text \<open>\<open>d[k] = v\<close> overwrites in place, or appends a new key.\<close>

fun dict_set :: "'k \<Rightarrow> 'v \<Rightarrow> ('k, 'v) dict \<Rightarrow> ('k, 'v) dict" where
  "dict_set k v [] = [(k, v)]"
| "dict_set k v ((k', v') # d) = (if k' = k then (k', v) # d else (k', v') # dict_set k v d)"

text \<open>\<open>d.get(k)\<close>, and the keys in their order.\<close>

definition dict_get :: "('k, 'v) dict \<Rightarrow> 'k \<Rightarrow> 'v option" where
  "dict_get d k = map_of d k"

definition dict_keys :: "('k, 'v) dict \<Rightarrow> 'k list" where
  "dict_keys d = map fst d"

text \<open>
  The interface of a dictionary, and what follows for a sequence of assignments: the last one
  to a key wins, and no key is listed twice.
\<close>

locale py_dict =
  fixes emp :: 'd
    and put :: "'k \<Rightarrow> 'v \<Rightarrow> 'd \<Rightarrow> 'd"
    and lookup :: "'d \<Rightarrow> 'k \<Rightarrow> 'v option"
    and keys :: "'d \<Rightarrow> 'k list"
  assumes lookup_emp: "lookup emp = Map.empty"
    and lookup_put: "lookup (put k v d) = (lookup d)(k \<mapsto> v)"
    and keys_emp: "keys emp = []"
    and keys_put: "keys (put k v d) = (if k \<in> set (keys d) then keys d else keys d @ [k])"
begin

lemma lookup_put_same: "lookup (put k v d) k = Some v"
  by (simp add: lookup_put)

lemma lookup_put_other: "k' \<noteq> k \<Longrightarrow> lookup (put k v d) k' = lookup d k'"
  by (simp add: lookup_put)

lemma lookup_put_all:
  "lookup (fold (\<lambda>(k, v). put k v) kvs d) = lookup d ++ map_of (rev kvs)"
  by (induction kvs arbitrary: d) (auto simp: lookup_put fun_eq_iff map_add_def split: option.splits)

lemma distinct_keys_put: "distinct (keys d) \<Longrightarrow> distinct (keys (put k v d))"
  by (simp add: keys_put)

lemma distinct_keys_put_all: "distinct (keys d) \<Longrightarrow> distinct (keys (fold (\<lambda>(k, v). put k v) kvs d))"
  by (induction kvs arbitrary: d) (auto simp: distinct_keys_put)

lemma set_keys_put_all:
  "set (keys (fold (\<lambda>(k, v). put k v) kvs d)) = set (keys d) \<union> fst ` set kvs"
  by (induction kvs arbitrary: d) (auto simp: keys_put split: if_splits)

end

lemma map_of_dict_set: "map_of (dict_set k v d) = (map_of d)(k \<mapsto> v)"
  by (induction k v d rule: dict_set.induct) (auto simp: fun_eq_iff)

lemma keys_dict_set:
  "dict_keys (dict_set k v d) = (if k \<in> set (dict_keys d) then dict_keys d else dict_keys d @ [k])"
  by (induction k v d rule: dict_set.induct) (auto simp: dict_keys_def)

interpretation pyd: py_dict "[]" dict_set dict_get dict_keys
  by unfold_locales (auto simp: dict_get_def dict_keys_def map_of_dict_set fun_eq_iff
      keys_dict_set [unfolded dict_keys_def])

declare pyd.lookup_put_same [simp]
declare pyd.lookup_put_other [simp]

lemma dict_get_Nil [simp]: "dict_get [] k = None"
  by (simp add: dict_get_def)

lemma dict_get_Cons [simp]: "dict_get ((k', v) # d) k = (if k' = k then Some v else dict_get d k)"
  by (simp add: dict_get_def)

lemma dict_set_same [simp]: "dict_set k v (dict_set k w d) = dict_set k v d"
  by (induction k w d rule: dict_set.induct) auto

lemma dict_set_Nil_ne [simp]: "dict_set k v d \<noteq> []"
  by (cases d) (auto split: if_splits)

section \<open>Hjson values\<close>

text \<open>
  What \<open>hjson.loads(text, use_decimal=True)\<close> builds: \<open>None\<close>, booleans, \<open>int\<close>s,
  \<open>Decimal\<close>s (kept as their text), strings, lists and ordered dictionaries.
\<close>

datatype json =
    JNull
  | JBool bool
  | JInt int
  | JDecimal string
  | JStr string
  | JList "json list"
  | JDict "(string \<times> json) list"

text \<open>The types the sources pass to \<open>isinstance\<close>.\<close>

datatype pytype = TDict | TStr | TList

fun isinstance :: "json \<Rightarrow> pytype \<Rightarrow> bool" where
  "isinstance (JDict _) TDict = True"
| "isinstance (JStr _) TStr = True"
| "isinstance (JList _) TList = True"
| "isinstance _ _ = False"

lemma isinstance_simps [simp]:
  "isinstance v TDict \<longleftrightarrow> (\<exists>d. v = JDict d)"
  "isinstance v TStr \<longleftrightarrow> (\<exists>s. v = JStr s)"
  "isinstance v TList \<longleftrightarrow> (\<exists>l. v = JList l)"
  by (cases v; simp)+

section \<open>Exceptions\<close>

text \<open>
  The messages of \<open>JsonError\<close>, one constructor for each place that raises it, with the values
  the message is formatted from.
\<close>

datatype json_msg =
    MissingField string string
  | WrongFieldType string string json pytype
  | BadMappingPath nat string
  | MappingElementNotDict json
  | PatchRepoWithoutPatchDir
  | PatchRepoWithMapping
  | PatchDirUnused
  | MappingPatchDirWithoutGlobal
  | ExcludeNotString json

text \<open>The arguments of a command are strings or \<open>Path\<close> objects (by their text); a failing command keeps
  the list as it was given.\<close>

datatype cmd_arg = Str string | PathArg string

datatype exn =
    JsonError string json_msg
  | ValueError string
  | TypeError
  | AttributeError
  | AssertionError
  | KeyError
  | IndexError
  | ReError
  | ArgumentTypeError string string
  | FileNotFoundError "string list"
  | FileExistsError "string list"
  | NotADirectoryError "string list"
  | IsADirectoryError "string list"
  | CalledProcessError "cmd_arg list" int string string
  | SystemExit int

section \<open>Computations that may raise\<close>

type_synonym 'a res = "exn + 'a"

definition rbind :: "'a res \<Rightarrow> ('a \<Rightarrow> 'b res) \<Rightarrow> 'b res" where
  "rbind m f = (case m of Inl e \<Rightarrow> Inl e | Inr x \<Rightarrow> f x)"

text \<open>\<open>[f x for x in xs]\<close>, stopping at the first exception.\<close>

fun rmap :: "('a \<Rightarrow> 'b res) \<Rightarrow> 'a list \<Rightarrow> 'b list res" where
  "rmap f [] = Inr []"
| "rmap f (x # xs) = rbind (f x) (\<lambda>y. rbind (rmap f xs) (\<lambda>ys. Inr (y # ys)))"

text \<open>\<open>if cond: raise e\<close>.\<close>

definition raise_if :: "bool \<Rightarrow> exn \<Rightarrow> unit res" where
  "raise_if b e = (if b then Inl e else Inr ())"

lemma rbind_simps [simp]:
  "rbind (Inl e) f = Inl e"
  "rbind (Inr x) f = f x"
  by (simp_all add: rbind_def)

lemma rbind_Inr_iff [res_simps]: "rbind m f = Inr y \<longleftrightarrow> (\<exists>x. m = Inr x \<and> f x = Inr y)"
  by (cases m) auto

lemma rbind_Inl_iff [res_simps]:
  "rbind m f = Inl e \<longleftrightarrow> m = Inl e \<or> (\<exists>x. m = Inr x \<and> f x = Inl e)"
  by (cases m) auto

lemma raise_if_iff [res_simps]:
  "raise_if b e = Inr u \<longleftrightarrow> \<not> b"
  "raise_if b e = Inl e' \<longleftrightarrow> b \<and> e' = e"
  by (auto simp: raise_if_def)

lemma raise_if_simps [simp]: "raise_if True e = Inl e" "raise_if False e = Inr ()"
  by (simp_all add: raise_if_def)

lemma rmap_Inr_iff: "rmap f xs = Inr ys \<longleftrightarrow> list_all2 (\<lambda>x y. f x = Inr y) xs ys"
  by (induction xs arbitrary: ys) (auto simp: res_simps list_all2_Cons1)

lemma rmap_Inr_mem: "rmap f xs = Inr ys \<Longrightarrow> x \<in> set xs \<Longrightarrow> \<exists>y. f x = Inr y"
  by (induction xs arbitrary: ys) (auto simp: res_simps)

lemma rmap_total: "(\<forall>x\<in>set xs. f x = Inr (g x)) \<Longrightarrow> rmap f xs = Inr (map g xs)"
  by (induction xs) auto

lemma rmap_cong [fundef_cong]:
  "xs = ys \<Longrightarrow> (\<And>x. x \<in> set ys \<Longrightarrow> f x = g x) \<Longrightarrow> rmap f xs = rmap g ys"
proof (induction xs arbitrary: ys)
  case (Cons x xs)
  then show ?case by (cases ys) auto
qed simp

lemma Inr_obtain: "(\<forall>e. m \<noteq> Inl e) \<Longrightarrow> (\<And>x. m = Inr x \<Longrightarrow> thesis) \<Longrightarrow> thesis"
  by (cases m) auto

end
