(* ===== verification/PyPath.thy ===== *)
theory PyPath
  imports PyRuntime "HOL-Library.Char_ord" "HOL-Library.List_Lexorder" "HOL-Library.Product_Lexorder"
begin

text \<open>
  POSIX paths as the sources use them: \<open>os.path.normpath\<close> and \<open>os.path.relpath\<close> on strings,
  and \<open>pathlib.Path\<close> objects, which are a root and a list of components.
\<close>

section \<open>The os.path functions\<close>

text \<open>\<open>str.startswith\<close>.\<close>

definition startswith :: "string \<Rightarrow> string \<Rightarrow> bool" where
  "startswith s p \<longleftrightarrow> strip_prefix p s \<noteq> None"

lemma startswith_iff: "startswith s p \<longleftrightarrow> (\<exists>t. s = p @ t)"
  by (auto simp: startswith_def strip_prefix_Some_iff)

text \<open>The number of leading slashes \<open>normpath\<close> keeps: none, one, or exactly two.\<close>

definition initial_slashes :: "string \<Rightarrow> nat" where
  "initial_slashes p =
     (if \<not> startswith p ''/'' then 0
      else if startswith p ''//'' \<and> \<not> startswith p ''///'' then 2
      else 1)"

text \<open>The loop of \<open>normpath\<close> over the components, with the kept ones in reverse.\<close>

fun norm_loop :: "bool \<Rightarrow> string list \<Rightarrow> string list \<Rightarrow> string list" where
  "norm_loop rooted acc [] = rev acc"
| "norm_loop rooted acc (c # cs) =
     (if c = [] \<or> c = ''.'' then norm_loop rooted acc cs
      else if c \<noteq> ''..'' \<or> (\<not> rooted \<and> acc = []) \<or> (acc \<noteq> [] \<and> hd acc = ''..'')
           then norm_loop rooted (c # acc) cs
      else norm_loop rooted (tl acc) cs)"

definition normpath :: "string \<Rightarrow> string" where
  "normpath p =
     (if p = [] then ''.''
      else let k = initial_slashes p;
               comps = norm_loop (k > 0) [] (split_on (CHR ''/'') p);
               q = replicate k (CHR ''/'') @ join_with ''/'' comps
           in if q = [] then ''.'' else q)"

text \<open>\<open>os.path.join(a, b)\<close>.\<close>

definition os_join :: "string \<Rightarrow> string \<Rightarrow> string" where
  "os_join a b =
     (if startswith b ''/'' then b
      else if a = [] \<or> last a = CHR ''/'' then a @ b
      else a @ ''/'' @ b)"

text \<open>\<open>os.path.abspath\<close>, relative to a working directory.\<close>

definition abspath :: "string \<Rightarrow> string \<Rightarrow> string" where
  "abspath cwd p = (if startswith p ''/'' then normpath p else normpath (os_join cwd p))"

fun common_prefix :: "'a list \<Rightarrow> 'a list \<Rightarrow> nat" where
  "common_prefix (x # xs) (y # ys) = (if x = y then Suc (common_prefix xs ys) else 0)"
| "common_prefix _ _ = 0"

text \<open>\<open>os.path.relpath(path, start)\<close> (for a nonempty \<open>path\<close>).\<close>

definition relpath :: "string \<Rightarrow> string \<Rightarrow> string \<Rightarrow> string" where
  "relpath cwd p start =
     (let ss = filter (\<lambda>c. c \<noteq> []) (split_on (CHR ''/'') (abspath cwd start));
          ps = filter (\<lambda>c. c \<noteq> []) (split_on (CHR ''/'') (abspath cwd p));
          i = common_prefix ss ps;
          out = replicate (length ss - i) ''..'' @ drop i ps
      in if out = [] then ''.'' else join_with ''/'' out)"

section \<open>pathlib.Path\<close>

text \<open>A \<open>PurePosixPath\<close>: its root (empty, one or two slashes) and its components.\<close>

record path =
  root :: string
  parts :: "string list"

definition mk_path :: "string \<Rightarrow> path" where
  "mk_path s = \<lparr>root = replicate (initial_slashes s) (CHR ''/''),
     parts = filter (\<lambda>c. c \<noteq> [] \<and> c \<noteq> ''.'') (split_on (CHR ''/'') s)\<rparr>"

definition path_str :: "path \<Rightarrow> string" where
  "path_str p =
     (if root p = [] \<and> parts p = [] then ''.'' else root p @ join_with ''/'' (parts p))"

text \<open>\<open>a / b\<close>: an absolute right operand replaces the left one.\<close>

definition path_join :: "path \<Rightarrow> path \<Rightarrow> path" where
  "path_join a b = (if root b \<noteq> [] then b else a\<lparr>parts := parts a @ parts b\<rparr>)"

definition path_parent :: "path \<Rightarrow> path" where
  "path_parent p = p\<lparr>parts := butlast (parts p)\<rparr>"

definition path_name :: "path \<Rightarrow> string" where
  "path_name p = (if parts p = [] then [] else last (parts p))"

text \<open>\<open>p.with_name(n)\<close> needs a path with a name and a name that is one proper component.\<close>

definition with_name :: "path \<Rightarrow> string \<Rightarrow> path res" where
  "with_name p n =
     (if path_name p = [] then Inl (ValueError ''has an empty name'')
      else if n = [] \<or> CHR ''/'' \<in> set n \<or> n = ''.'' then Inl (ValueError ''Invalid name'')
      else Inr (p\<lparr>parts := butlast (parts p) @ [n]\<rparr>))"

text \<open>The position of the dot that starts a suffix: not the first character, not the last.\<close>

definition path_stem :: "string \<Rightarrow> string" where
  "path_stem n =
     (case rsplit_max 1 (CHR ''.'') n of
        [a, b] \<Rightarrow> if a \<noteq> [] \<and> b \<noteq> [] then a else n
      | _ \<Rightarrow> n)"

text \<open>\<open>p.with_suffix(sfx)\<close> for a suffix that is a dot and a nonempty, slash-free word.\<close>

definition with_suffix :: "path \<Rightarrow> string \<Rightarrow> path res" where
  "with_suffix p sfx =
     (if path_name p = [] then Inl (ValueError ''has an empty name'')
      else Inr (p\<lparr>parts := butlast (parts p) @ [path_stem (path_name p) @ sfx]\<rparr>))"

text \<open>What every \<open>Path\<close> object satisfies: proper components only.\<close>

definition comp_ok :: "string \<Rightarrow> bool" where
  "comp_ok c \<longleftrightarrow> c \<noteq> [] \<and> c \<noteq> ''.'' \<and> CHR ''/'' \<notin> set c"

definition root_ok :: "string \<Rightarrow> bool" where
  "root_ok r \<longleftrightarrow> r = [] \<or> r = ''/'' \<or> r = ''//''"

definition path_wf :: "path \<Rightarrow> bool" where
  "path_wf p \<longleftrightarrow> list_all comp_ok (parts p) \<and> root_ok (root p)"

lemma root_ok_Nil [simp]: "root_ok []"
  by (simp add: root_ok_def)

lemma initial_slashes_cases: "initial_slashes s \<in> {0, 1, 2}"
  by (simp add: initial_slashes_def)

lemma mk_path_wf [simp]: "path_wf (mk_path s)"
proof -
  have "list_all comp_ok (parts (mk_path s))"
    by (auto simp: mk_path_def comp_ok_def list_all_iff dest: split_on_sep_free)
  moreover have "root_ok (root (mk_path s))"
    using initial_slashes_cases [of s] by (auto simp: mk_path_def root_ok_def numeral_2_eq_2)
  ultimately show ?thesis by (simp add: path_wf_def)
qed

lemma path_join_wf [simp]: "path_wf a \<Longrightarrow> path_wf b \<Longrightarrow> path_wf (path_join a b)"
  by (simp add: path_wf_def path_join_def)

lemma list_all_butlast: "list_all P xs \<Longrightarrow> list_all P (butlast xs)"
  by (auto simp: list_all_iff dest: in_set_butlastD)

lemma path_parent_wf [simp]: "path_wf p \<Longrightarrow> path_wf (path_parent p)"
  by (simp add: path_wf_def path_parent_def list_all_butlast)

lemma with_name_wf: "path_wf p \<Longrightarrow> with_name p n = Inr q \<Longrightarrow> path_wf q"
  by (auto simp: path_wf_def with_name_def comp_ok_def list_all_butlast split: if_splits)

section \<open>The order of paths\<close>

text \<open>\<open>Path\<close> objects are compared by their components, the root first; the other fields settle nothing
  for paths of the code.\<close>

definition path_key :: "'a path_ext \<Rightarrow> string list \<times> string \<times> 'a" where
  "path_key p = ((if root p = [] then parts p else root p # parts p), root p, path.more p)"

lemma path_key_inject: "path_key p = path_key q \<Longrightarrow> p = q"
  by (cases p; cases q) (auto simp: path_key_def split: if_splits)

instantiation path_ext :: (linorder) linorder
begin

definition less_eq_path_ext :: "'a path_ext \<Rightarrow> 'a path_ext \<Rightarrow> bool" where
  "less_eq_path_ext p q \<longleftrightarrow> path_key p \<le> path_key q"

definition less_path_ext :: "'a path_ext \<Rightarrow> 'a path_ext \<Rightarrow> bool" where
  "less_path_ext p q \<longleftrightarrow> path_key p < path_key q"

instance
  by intro_classes (auto simp: less_eq_path_ext_def less_path_ext_def intro: path_key_inject)

end

text \<open>Entries of one directory are in the order of their names.\<close>

lemma append_le_append: "xs @ ys \<le> xs @ zs \<longleftrightarrow> ys \<le> (zs :: 'a :: linorder list)"
  by (induction xs) auto

lemma append_less_append: "xs @ ys < xs @ zs \<longleftrightarrow> ys < (zs :: 'a :: linorder list)"
  by (induction xs) auto

lemma path_entries_le:
  "d\<lparr>parts := parts d @ [m]\<rparr> \<le> d\<lparr>parts := parts d @ [n]\<rparr> \<longleftrightarrow> m \<le> n" for d :: path
  by (auto simp: less_eq_path_ext_def path_key_def append_le_append append_less_append)

end
