(* ===== verification/PathNorm.thy ===== *)
theory PathNorm
  imports PyPath
begin

text \<open>
  What \<open>os.path.normpath\<close> means. A path denotes a walk in the directory tree: from a directory
  (its components, innermost first) each component goes down, stays, or goes up. Normalising
  keeps the walk, and leaves all upward steps in front.
\<close>

fun walk :: "string list \<Rightarrow> string list \<Rightarrow> string list" where
  "walk b [] = b"
| "walk b (c # cs) =
     (if c = [] \<or> c = ''.'' then walk b cs
      else if c = ''..'' then walk (tl b) cs
      else walk (c # b) cs)"

lemma walk_append: "walk b (xs @ ys) = walk (walk b xs) ys"
  by (induction b xs rule: walk.induct) auto

text \<open>A proper component that goes down.\<close>

definition clean :: "string \<Rightarrow> bool" where
  "clean c \<longleftrightarrow> comp_ok c \<and> c \<noteq> ''..''"

lemma cleanD:
  "clean c \<Longrightarrow> c \<noteq> []" "clean c \<Longrightarrow> c \<noteq> ''.''" "clean c \<Longrightarrow> c \<noteq> ''..''"
  "clean c \<Longrightarrow> CHR ''/'' \<notin> set c" "clean c \<Longrightarrow> comp_ok c"
  by (simp_all add: clean_def comp_ok_def)

lemma clean_iff: "clean c \<longleftrightarrow> c \<noteq> [] \<and> c \<noteq> ''.'' \<and> c \<noteq> ''..'' \<and> CHR ''/'' \<notin> set c"
  by (auto simp: clean_def comp_ok_def)

lemma clean_simps [simp]: "\<not> clean []" "\<not> clean ''.''" "\<not> clean ''..''"
  by (auto dest: cleanD)

lemma walk_clean: "list_all clean cs \<Longrightarrow> walk b cs = rev cs @ b"
  by (induction cs arbitrary: b) (auto simp: clean_def comp_ok_def)

section \<open>The component loop\<close>

definition proper :: "string \<Rightarrow> bool" where
  "proper c \<longleftrightarrow> c \<noteq> [] \<and> c \<noteq> ''.''"

text \<open>Popping a component undoes the step down that pushed it.\<close>

lemma walk_pop:
  "proper c \<Longrightarrow> c \<noteq> ''..'' \<Longrightarrow> walk (walk b (rev (c # acc))) (''..'' # cs) = walk (walk b (rev acc)) cs"
  by (simp add: walk_append proper_def)

lemma norm_loop_walk:
  "list_all proper acc \<Longrightarrow> walk b (norm_loop False acc cs) = walk (walk b (rev acc)) cs"
proof (induction cs arbitrary: acc)
  case (Cons c cs)
  show ?case
  proof (cases "c = ''..'' \<and> acc \<noteq> [] \<and> hd acc \<noteq> ''..''")
    case True
    then obtain a as where acc: "acc = a # as" "a \<noteq> ''..''" by (cases acc) auto
    then have "norm_loop False acc (c # cs) = norm_loop False as cs" using True by simp
    with acc Cons True walk_pop [of a b as cs] show ?thesis by simp
  next
    case False
    then show ?thesis using Cons.prems Cons.IH [of acc] Cons.IH [of "c # acc"]
      by (auto simp: walk_append proper_def)
  qed
qed simp

lemma norm_loop_rooted_walk:
  "list_all clean acc \<Longrightarrow> \<forall>c\<in>set cs. CHR ''/'' \<notin> set c \<Longrightarrow> walk [] (norm_loop True acc cs) = walk (walk [] (rev acc)) cs"
proof (induction cs arbitrary: acc)
  case (Cons c cs)
  note clean_acc = Cons.prems(1)
  have IH: "list_all clean acc' \<Longrightarrow>
      walk [] (norm_loop True acc' cs) = walk (walk [] (rev acc')) cs" for acc'
    using Cons.IH Cons.prems(2) by simp
  consider "c = ''..''" "acc = []" | a as where "c = ''..''" "acc = a # as" | "c \<noteq> ''..''"
    by (cases acc) auto
  then show ?case
  proof cases
    case 1
    with IH [of "[]"] show ?thesis by simp
  next
    case 2
    with clean_acc have a: "proper a" "a \<noteq> ''..''" "list_all clean as"
      by (simp_all add: proper_def cleanD)
    have "norm_loop True acc (c # cs) = norm_loop True as cs" using 2 a by simp
    then have "walk [] (norm_loop True acc (c # cs)) = walk (walk [] (rev as)) cs"
      using IH [OF a(3)] by simp
    then show ?thesis using 2 walk_pop [OF a(1,2), of "[]" as cs] by simp
  next
    case 3
    show ?thesis
    proof (cases "c = [] \<or> c = ''.''")
      case True
      with IH [OF clean_acc] show ?thesis by auto
    next
      case False
      with 3 Cons.prems have "clean c" by (simp add: clean_iff)
      with clean_acc have c: "list_all clean (c # acc)" by simp
      have "norm_loop True acc (c # cs) = norm_loop True (c # acc) cs" using 3 False by simp
      with IH [OF c] 3 False show ?thesis by (simp add: walk_append)
    qed
  qed
qed simp

text \<open>
  The shape of the result: upward steps (none for a rooted path), then steps down only. The
  components of a split string hold no slash.
\<close>

definition norm_shape :: "bool \<Rightarrow> string list \<Rightarrow> bool" where
  "norm_shape rooted cs \<longleftrightarrow>
     (\<exists>k ds. cs = replicate k ''..'' @ ds \<and> list_all clean ds \<and> (rooted \<longrightarrow> k = 0))"

lemma norm_shape_push:
  "norm_shape r (rev acc) \<Longrightarrow> clean c \<Longrightarrow> norm_shape r (rev (c # acc))"
  unfolding norm_shape_def
  by (elim exE conjE, rule_tac x = k in exI, rule_tac x = "ds @ [c]" in exI) simp

lemma norm_shape_up:
  assumes "norm_shape r (rev acc)" "\<not> r" "acc = [] \<or> hd acc = ''..''"
  shows "norm_shape r (rev (''..'' # acc))"
proof -
  obtain k ds where k: "rev acc = replicate k ''..'' @ ds" "list_all clean ds"
    using assms(1) by (auto simp: norm_shape_def)
  have "ds = []"
  proof (cases ds rule: rev_cases)
    case (snoc xs x)
    with k have "acc = x # rev (replicate k ''..'' @ xs)" by (simp add: rev_swap)
    moreover have "x \<noteq> ''..''" using k(2) snoc by (simp add: clean_def)
    ultimately show ?thesis using assms(3) by simp
  qed
  with k have "rev (''..'' # acc) = replicate (Suc k) ''..'' @ []"
    by (simp add: replicate_append_same)
  then show ?thesis using assms(2) unfolding norm_shape_def
    by (intro exI [of _ "Suc k"] exI [of _ "[]"]) simp
qed

lemma butlast_replicate: "butlast (replicate k x) = replicate (k - 1) x"
proof (cases k)
  case (Suc n)
  then show ?thesis by (metis butlast_snoc diff_Suc_1 replicate_Suc replicate_append_same)
qed simp

lemma norm_shape_tl: "norm_shape r (rev acc) \<Longrightarrow> norm_shape r (rev (tl acc))"
proof (cases acc)
  case (Cons a as)
  assume "norm_shape r (rev acc)"
  then obtain k ds where k: "rev acc = replicate k ''..'' @ ds" "list_all clean ds" "r \<longrightarrow> k = 0"
    by (auto simp: norm_shape_def)
  have "rev as = butlast (replicate k ''..'' @ ds)"
    using Cons k(1) by (metis butlast_snoc rev.simps(2))
  also have "\<dots> = (if ds = [] then replicate (k - 1) ''..'' @ [] else replicate k ''..'' @ butlast ds)"
    by (simp add: butlast_append butlast_replicate)
  finally have as: "rev as = (if ds = [] then replicate (k - 1) ''..'' @ [] else replicate k ''..'' @ butlast ds)" .
  show ?thesis
  proof (cases "ds = []")
    case True
    then have "rev as = replicate (k - 1) ''..'' @ []" using as by simp
    moreover have "r \<longrightarrow> k - 1 = 0" using k(3) by simp
    ultimately show ?thesis using Cons unfolding norm_shape_def by (metis list.sel(3) list.pred_inject(1))
  next
    case False
    then have "rev as = replicate k ''..'' @ butlast ds" using as by simp
    then show ?thesis using Cons k(3) list_all_butlast [OF k(2)]
      unfolding norm_shape_def by (metis list.sel(3))
  qed
qed simp

lemma norm_loop_shape:
  "norm_shape r (rev acc) \<Longrightarrow> \<forall>c\<in>set cs. CHR ''/'' \<notin> set c \<Longrightarrow> norm_shape r (norm_loop r acc cs)"
proof (induction cs arbitrary: acc)
  case (Cons c cs)
  consider "c = [] \<or> c = ''.''" | "clean c" | "c = ''..''"
    using Cons.prems(2) by (auto simp: clean_def comp_ok_def)
  then show ?case
  proof cases
    case 1
    with Cons show ?thesis by auto
  next
    case 2
    with Cons.prems Cons.IH [of "c # acc"] norm_shape_push [of r acc c] show ?thesis
      by (auto simp: clean_def comp_ok_def)
  next
    case 3
    show ?thesis
    proof (cases "\<not> r \<and> (acc = [] \<or> hd acc = ''..'')")
      case True
      with 3 Cons.prems Cons.IH [of "c # acc"] norm_shape_up [of r acc] show ?thesis by auto
    next
      case False
      have "acc \<noteq> [] \<Longrightarrow> hd acc = ''..'' \<Longrightarrow> r \<Longrightarrow> False"
        using Cons.prems(1) by (cases acc) (auto simp: norm_shape_def clean_def)
      with False 3 Cons.prems Cons.IH [of "tl acc"] norm_shape_tl [of r acc] show ?thesis
        by auto
    qed
  qed
qed simp

section \<open>The normalised string\<close>

definition norm_comps :: "string \<Rightarrow> string list" where
  "norm_comps v = norm_loop (0 < initial_slashes v) [] (split_on (CHR ''/'') v)"

lemma initial_slashes_pos: "0 < initial_slashes v \<longleftrightarrow> startswith v ''/''"
  by (simp add: initial_slashes_def)

lemma norm_comps_shape: "norm_shape (startswith v ''/'') (norm_comps v)"
proof -
  have "norm_shape (0 < initial_slashes v) (norm_loop (0 < initial_slashes v) [] (split_on (CHR ''/'') v))"
  proof (rule norm_loop_shape)
    show "norm_shape (0 < initial_slashes v) (rev [])"
      unfolding norm_shape_def by (intro exI [of _ 0] exI [of _ "[]"]) simp
  qed (auto dest: split_on_sep_free)
  then show ?thesis by (simp add: norm_comps_def initial_slashes_pos)
qed

lemma norm_comps_proper: "c \<in> set (norm_comps v) \<Longrightarrow> c = ''..'' \<or> clean c"
  using norm_comps_shape [of v] by (auto simp: norm_shape_def list_all_iff split: if_splits)

lemma norm_comps_walk: "\<not> startswith v ''/'' \<Longrightarrow> walk b (norm_comps v) = walk b (split_on (CHR ''/'') v)"
  using norm_loop_walk [of "[]" b] by (simp add: norm_comps_def flip: initial_slashes_pos)

lemma startswith_Nil [simp]: "startswith [] (x # xs) = False"
  by (simp add: startswith_def)

lemma startswith_Cons [simp]: "startswith (y # ys) (x # xs) \<longleftrightarrow> x = y \<and> startswith ys xs"
  by (simp add: startswith_def)

lemma startswith_empty [simp]: "startswith s []"
  by (simp add: startswith_def)

lemma normpath_rel:
  assumes "\<not> startswith v ''/''"
  shows "normpath v = (if norm_comps v = [] then ''.'' else join_with ''/'' (norm_comps v))"
proof -
  have z: "initial_slashes v = 0" using assms initial_slashes_pos [of v] by simp
  have ne: "join_with ''/'' cs \<noteq> []" if "cs \<noteq> []" "hd cs \<noteq> []" for cs
    using that by (cases cs; cases "tl cs") auto
  show ?thesis
  proof (cases "norm_comps v")
    case Nil
    with z show ?thesis by (simp add: normpath_def norm_comps_def)
  next
    case (Cons c cs)
    have "hd (norm_comps v) \<noteq> []" using norm_comps_proper [of c v] Cons by (auto simp: cleanD)
    then have "join_with ''/'' (norm_comps v) \<noteq> []" using ne Cons by simp
    then show ?thesis using z Cons by (auto simp: normpath_def norm_comps_def Let_def)
  qed
qed

lemma join_startswith_slash:
  "list_all (\<lambda>c. c \<noteq> [] \<and> CHR ''/'' \<notin> set c) cs \<Longrightarrow> \<not> startswith (join_with ''/'' cs) ''/''"
proof (cases cs)
  case (Cons c ds)
  assume "list_all (\<lambda>c. c \<noteq> [] \<and> CHR ''/'' \<notin> set c) cs"
  then obtain x xs where "c = x # xs" "x \<noteq> CHR ''/''" using Cons by (cases c) auto
  then show ?thesis using Cons by (cases ds) auto
qed simp

lemma norm_comps_list_all: "list_all (\<lambda>c. c \<noteq> [] \<and> CHR ''/'' \<notin> set c) (norm_comps v)"
  using norm_comps_proper [of _ v] by (fastforce simp: list_all_iff clean_iff)

lemma normpath_startswith_slash [simp]: "startswith (normpath v) ''/'' \<longleftrightarrow> startswith v ''/''"
proof (cases "startswith v ''/''")
  case True
  then have "0 < initial_slashes v" by (simp add: initial_slashes_pos)
  then obtain n where "initial_slashes v = Suc n" by (cases "initial_slashes v") auto
  then show ?thesis using True by (auto simp: normpath_def Let_def)
next
  case False
  then show ?thesis using join_startswith_slash [OF norm_comps_list_all]
    by (auto simp: normpath_rel)
qed

text \<open>The dots of the test \<open>val.startswith('..')\<close> are those of the first component.\<close>

lemma join_startswith_dots:
  assumes "cs \<noteq> []" "hd cs \<noteq> ''.''" "hd cs \<noteq> []"
  shows "startswith (join_with ''/'' cs) ''..'' \<longleftrightarrow> startswith (hd cs) ''..''"
proof -
  obtain c ds where cs: "cs = c # ds" using assms(1) by (cases cs) auto
  obtain x xs where c: "c = x # xs" using assms(3) cs by (cases c) auto
  show ?thesis using cs c assms(2) by (cases ds; cases xs) auto
qed

lemma normpath_startswith_dots:
  assumes "\<not> startswith v ''/''"
  shows "startswith (normpath v) ''..'' \<longleftrightarrow>
    norm_comps v \<noteq> [] \<and> startswith (hd (norm_comps v)) ''..''"
proof (cases "norm_comps v")
  case Nil
  with assms show ?thesis by (simp add: normpath_rel)
next
  case (Cons c cs)
  then have "c = ''..'' \<or> clean c" by (intro norm_comps_proper [of c v]) simp
  then have "c \<noteq> ''.''" "c \<noteq> []" by (auto simp: cleanD)
  then show ?thesis using Cons assms join_startswith_dots [of "norm_comps v"]
    by (simp add: normpath_rel)
qed

text \<open>A relative path whose normal form does not start with dots only goes down.\<close>

lemma norm_comps_clean:
  assumes "\<not> startswith v ''/''" "\<not> startswith (normpath v) ''..''"
  shows "list_all clean (norm_comps v)"
proof -
  obtain k ds where k: "norm_comps v = replicate k ''..'' @ ds" "list_all clean ds"
    using norm_comps_shape [of v] by (auto simp: norm_shape_def)
  have "k = 0"
    using assms k(1) by (cases k) (auto simp: normpath_startswith_dots)
  with k show ?thesis by simp
qed

lemma mk_path_join:
  assumes "list_all comp_ok cs" "cs \<noteq> []"
  shows "mk_path (join_with ''/'' cs) = \<lparr>root = [], parts = cs\<rparr>"
proof -
  have "\<not> startswith (join_with ''/'' cs) ''/''"
    using assms by (intro join_startswith_slash) (auto simp: list_all_iff comp_ok_def)
  then have "initial_slashes (join_with ''/'' cs) = 0" by (simp add: initial_slashes_def)
  moreover have "split_on (CHR ''/'') (join_with ''/'' cs) = cs"
    using assms by (intro split_on_join) (auto simp: list_all_iff comp_ok_def)
  moreover have "filter (\<lambda>c. c \<noteq> [] \<and> c \<noteq> ''.'') cs = cs"
    using assms(1) by (auto simp: list_all_iff comp_ok_def intro: filter_True)
  ultimately show ?thesis by (simp add: mk_path_def)
qed

lemma mk_path_normpath:
  assumes "\<not> startswith v ''/''" "\<not> startswith (normpath v) ''..''"
  shows "mk_path (normpath v) = \<lparr>root = [], parts = norm_comps v\<rparr>"
proof (cases "norm_comps v = []")
  case True
  with assms show ?thesis by (simp add: normpath_rel mk_path_def initial_slashes_def)
next
  case False
  have "list_all comp_ok (norm_comps v)"
    using norm_comps_clean [OF assms] by (auto simp: list_all_iff cleanD)
  with False assms show ?thesis by (simp add: normpath_rel mk_path_join)
qed

end
