(* ===== verification/FileTree.thy ===== *)
theory FileTree
  imports PathNorm "HOL-Library.Sublist"
begin

text \<open>
  The file system: a tree of directories and regular files, addressed by the components of an
  absolute path. Links, permissions and times are left out.
\<close>

datatype node = File string | Dir "(string, node) dict"

type_synonym loc = "string list"

fun node_at :: "loc \<Rightarrow> node \<Rightarrow> node option" where
  "node_at [] n = Some n"
| "node_at (c # cs) (File s) = None"
| "node_at (c # cs) (Dir es) = (case dict_get es c of None \<Rightarrow> None | Some m \<Rightarrow> node_at cs m)"

text \<open>Create or replace what stands at a location whose parent is a directory.\<close>

fun put_at :: "loc \<Rightarrow> node \<Rightarrow> node \<Rightarrow> node option" where
  "put_at [] new n = Some new"
| "put_at (c # cs) new (File s) = None"
| "put_at (c # cs) new (Dir es) =
     (if cs = [] then Some (Dir (dict_set c new es))
      else case dict_get es c of
             None \<Rightarrow> None
           | Some m \<Rightarrow>
               (case put_at cs new m of None \<Rightarrow> None | Some m' \<Rightarrow> Some (Dir (dict_set c m' es))))"

fun dict_del :: "'k \<Rightarrow> ('k, 'v) dict \<Rightarrow> ('k, 'v) dict" where
  "dict_del k [] = []"
| "dict_del k ((k', v) # d) = (if k' = k then dict_del k d else (k', v) # dict_del k d)"

text \<open>Remove what stands at a location, if anything does; of the root only the content goes.\<close>

fun del_at :: "loc \<Rightarrow> node \<Rightarrow> node" where
  "del_at [] n = Dir []"
| "del_at (c # cs) (File s) = File s"
| "del_at (c # cs) (Dir es) =
     (if cs = [] then Dir (dict_del c es)
      else case dict_get es c of None \<Rightarrow> Dir es | Some m \<Rightarrow> Dir (dict_set c (del_at cs m) es))"

definition is_directory :: "node option \<Rightarrow> bool" where
  "is_directory n \<longleftrightarrow> (case n of Some (Dir es) \<Rightarrow> True | _ \<Rightarrow> False)"

definition is_regular :: "node option \<Rightarrow> bool" where
  "is_regular n \<longleftrightarrow> (case n of Some (File s) \<Rightarrow> True | _ \<Rightarrow> False)"

lemma kind_simps [simp]:
  "is_directory (Some (Dir es))" "\<not> is_directory (Some (File s))" "\<not> is_directory None"
  "is_regular (Some (File s))" "\<not> is_regular (Some (Dir es))" "\<not> is_regular None"
  by (simp_all add: is_directory_def is_regular_def)

lemma is_directory_iff: "is_directory n \<longleftrightarrow> (\<exists>es. n = Some (Dir es))"
  by (auto simp: is_directory_def split: option.splits node.splits)

lemma is_regular_iff: "is_regular n \<longleftrightarrow> (\<exists>s. n = Some (File s))"
  by (auto simp: is_regular_def split: option.splits node.splits)

section \<open>The laws of the store\<close>

text \<open>
  What the programs rely on: a location can be read back below what was put there, writing and
  removing leave every unrelated location (neither above nor below) as it was, and directories
  above stay directories.
\<close>

locale store =
  fixes get :: "'c list \<Rightarrow> 't \<Rightarrow> 't option"
    and put :: "'c list \<Rightarrow> 't \<Rightarrow> 't \<Rightarrow> 't option"
    and del :: "'c list \<Rightarrow> 't \<Rightarrow> 't"
    and isdir :: "'t option \<Rightarrow> bool"
  assumes get_put: "put p n t = Some t' \<Longrightarrow> get (p @ q) t' = get q n"
    and get_put_other: "put p n t = Some t' \<Longrightarrow> \<not> prefix p q \<Longrightarrow> \<not> prefix q p \<Longrightarrow> get q t' = get q t"
    and isdir_put: "put p n t = Some t' \<Longrightarrow> strict_prefix q p \<Longrightarrow> isdir (get q t')"
    and get_del: "p \<noteq> [] \<Longrightarrow> prefix p q \<Longrightarrow> get q (del p t) = None"
    and get_del_other: "\<not> prefix p q \<Longrightarrow> \<not> prefix q p \<Longrightarrow> get q (del p t) = get q t"
    and isdir_del: "strict_prefix q p \<Longrightarrow> isdir (get q t) \<Longrightarrow> isdir (get q (del p t))"
    and put_ok: "p \<noteq> [] \<Longrightarrow> isdir (get (butlast p) t) \<Longrightarrow> put p n t \<noteq> None"
    and get_empty: "get [] t = Some t"
begin

lemma get_put_same: "put p n t = Some t' \<Longrightarrow> get p t' = Some n"
  using get_put [of p n t t' "[]"] by (simp add: get_empty)

text \<open>What is put at one location is not seen at, and does not disturb, another.\<close>

lemma put_then_get:
  assumes "put p n t = Some t'" "\<not> strict_prefix q p"
  shows "get q t' = (if prefix p q then get (drop (length p) q) n else get q t)"
proof (cases "prefix p q")
  case True
  then obtain r where "q = p @ r" by (auto simp: prefix_def)
  then show ?thesis using get_put [OF assms(1)] by simp
next
  case False
  then show ?thesis using get_put_other [OF assms(1)] assms(2) by (auto simp: strict_prefix_def)
qed

lemma del_then_get:
  assumes "p \<noteq> []" "\<not> strict_prefix q p"
  shows "get q (del p t) = (if prefix p q then None else get q t)"
  using get_del [OF assms(1)] get_del_other assms(2) by (auto simp: strict_prefix_def)

text \<open>Replacing: remove what is there, then put something new.\<close>

lemma replace:
  assumes "p \<noteq> []" "isdir (get (butlast p) t)"
  obtains t' where "put p n (del p t) = Some t'" "get p t' = Some n"
    "\<forall>q. \<not> prefix p q \<and> \<not> prefix q p \<longrightarrow> get q t' = get q t"
proof -
  have "strict_prefix (butlast p) p" using assms(1)
    by (cases p rule: rev_cases) (auto simp: strict_prefix_def)
  then have "isdir (get (butlast p) (del p t))" using isdir_del assms(2) by blast
  then obtain t' where t': "put p n (del p t) = Some t'" using put_ok [OF assms(1)] by blast
  show thesis
  proof (rule that [OF t' get_put_same [OF t']])
    show "\<forall>q. \<not> prefix p q \<and> \<not> prefix q p \<longrightarrow> get q t' = get q t"
      using get_put_other [OF t'] get_del_other by simp
  qed
qed

end

section \<open>The tree is a store\<close>

lemma dict_get_del [simp]: "dict_get (dict_del k d) k' = (if k' = k then None else dict_get d k')"
  by (induction d) auto

lemma dict_get_set [simp]: "dict_get (dict_set k v d) k' = (if k' = k then Some v else dict_get d k')"
  by (simp add: pyd.lookup_put)

lemma node_at_append: "node_at (p @ q) t = (case node_at p t of None \<Rightarrow> None | Some n \<Rightarrow> node_at q n)"
  by (induction p t rule: node_at.induct) (auto split: option.splits)

lemma put_at_ConsE:
  assumes "put_at (c # cs) n t = Some t'"
  obtains es m' where "t = Dir es" "t' = Dir (dict_set c m' es)" "cs = [] \<and> m' = n"
  | es m m' where "t = Dir es" "t' = Dir (dict_set c m' es)" "dict_get es c = Some m"
      "put_at cs n m = Some m'"
  using assms by (cases t) (auto split: if_splits option.splits)

lemma put_at_get: "put_at p n t = Some t' \<Longrightarrow> node_at (p @ q) t' = node_at q n"
proof (induction p arbitrary: t t')
  case (Cons c cs)
  from Cons(2) show ?case by (cases rule: put_at_ConsE) (auto dest: Cons.IH)
qed simp

lemma put_at_get_other:
  "put_at p n t = Some t' \<Longrightarrow> \<not> prefix p q \<Longrightarrow> \<not> prefix q p \<Longrightarrow> node_at q t' = node_at q t"
proof (induction p arbitrary: t t' q)
  case (Cons c cs)
  from Cons(4) obtain d ds where q: "q = d # ds" by (cases q) auto
  from Cons(2) show ?case
  proof (cases rule: put_at_ConsE)
    case 1
    then show ?thesis using Cons(3) by (auto simp: q)
  next
    case (2 es m m')
    show ?thesis
    proof (cases "d = c")
      case True
      then have "node_at ds m' = node_at ds m" using Cons(3,4) by (intro Cons.IH [OF 2(4)]) (auto simp: q)
      then show ?thesis using 2(1-3) by (simp add: q True)
    qed (use 2(1-3) in \<open>simp add: q\<close>)
  qed
qed simp

lemma put_at_dir: "put_at p n t = Some t' \<Longrightarrow> strict_prefix q p \<Longrightarrow> is_directory (node_at q t')"
proof (induction p arbitrary: t t' q)
  case (Cons c cs)
  from Cons(2) show ?case
    by (cases rule: put_at_ConsE; cases q) (use Cons(3) in \<open>auto dest: Cons.IH\<close>)
qed simp

lemma del_at_Cons:
  obtains s where "t = File s" "del_at (c # cs) t = File s"
  | es where "t = Dir es" "cs = []" "del_at (c # cs) t = Dir (dict_del c es)"
  | es where "t = Dir es" "cs \<noteq> []" "dict_get es c = None" "del_at (c # cs) t = Dir es"
  | es m where "t = Dir es" "cs \<noteq> []" "dict_get es c = Some m"
      "del_at (c # cs) t = Dir (dict_set c (del_at cs m) es)"
  by (cases t) (auto split: option.splits)

lemma del_at_get: "p \<noteq> [] \<Longrightarrow> prefix p q \<Longrightarrow> node_at q (del_at p t) = None"
proof (induction p arbitrary: t q)
  case (Cons c cs)
  then obtain ds where q: "q = c # ds" "prefix cs ds" by (cases q) auto
  show ?case by (cases rule: del_at_Cons [of t c cs]) (use q Cons.IH in auto)
qed simp

lemma del_at_get_other:
  "\<not> prefix p q \<Longrightarrow> \<not> prefix q p \<Longrightarrow> node_at q (del_at p t) = node_at q t"
proof (induction p arbitrary: t q)
  case (Cons c cs)
  then obtain d ds where q: "q = d # ds" by (cases q) auto
  show ?case by (cases rule: del_at_Cons [of t c cs]) (use q Cons in auto)
qed simp

lemma del_at_dir: "strict_prefix q p \<Longrightarrow> is_directory (node_at q t) \<Longrightarrow> is_directory (node_at q (del_at p t))"
proof (induction p arbitrary: t q)
  case (Cons c cs)
  show ?case by (cases rule: del_at_Cons [of t c cs]; cases q) (use Cons in auto)
qed simp

lemma put_at_ok: "p \<noteq> [] \<Longrightarrow> is_directory (node_at (butlast p) t) \<Longrightarrow> put_at p n t \<noteq> None"
proof (induction p arbitrary: t)
  case (Cons c cs)
  show ?case
  proof (cases "cs = []")
    case True
    with Cons(3) show ?thesis by (cases t) auto
  next
    case False
    then obtain es m where "t = Dir es" "dict_get es c = Some m" "is_directory (node_at (butlast cs) m)"
      using Cons(3) by (cases t) (auto split: option.splits)
    then show ?thesis using Cons.IH [of m] False by auto
  qed
qed simp

interpretation fs: store node_at put_at del_at is_directory
proof unfold_locales
  show "node_at [] t = Some t" for t by simp
qed (fact put_at_get put_at_get_other put_at_dir del_at_get del_at_get_other del_at_dir put_at_ok)+

end
