(* ===== verification/Fnmatch.thy ===== *)
theory Fnmatch
  imports PyText
begin

text \<open>
  \<open>fnmatch.fnmatch\<close>: shell patterns as lists of tokens and their matching against a whole
  name. A star matches any characters, the slash included.
\<close>

text \<open>A piece of a bracket expression: one character, or a range (empty when it goes down).\<close>

datatype cls = One char | Range char char

datatype pat = Star | AnyChar | LitChar char | Class bool "cls list"

text \<open>The ranges of a bracket expression: a hyphen makes one when a character stands on each
  side of it; the character after a range starts afresh.\<close>

fun class_items :: "string \<Rightarrow> cls list" where
  "class_items [] = []"
| "class_items [a] = [One a]"
| "class_items [a, h] = [One a, One h]"
| "class_items (a # h # b # r) =
     (if h = CHR ''-'' then Range a b # class_items r else One a # class_items (h # b # r))"

text \<open>The text between the brackets, and what follows: an exclamation mark and then a closing
  bracket may start the text; without a closing bracket there is no expression.\<close>

definition class_neg :: "string \<Rightarrow> bool \<times> string" where
  "class_neg s = (case s of CHR ''!'' # t \<Rightarrow> (True, t) | _ \<Rightarrow> (False, s))"

definition class_bracket :: "string \<Rightarrow> string \<times> string" where
  "class_bracket s = (case s of CHR '']'' # t \<Rightarrow> ('']'', t) | _ \<Rightarrow> ([], s))"

definition class_text :: "string \<Rightarrow> (bool \<times> string \<times> string) option" where
  "class_text s =
     (let (neg, s1) = class_neg s;
          (first, s2) = class_bracket s1;
          more = takeWhile (\<lambda>c. c \<noteq> CHR '']'') s2;
          rest = dropWhile (\<lambda>c. c \<noteq> CHR '']'') s2
      in if rest = [] then None else Some (neg, first @ more, tl rest))"

lemma class_neg_length: "class_neg s = (n, t) \<Longrightarrow> length t \<le> length s"
  by (cases s) (auto simp: class_neg_def split: if_splits char.splits bool.splits)

lemma class_bracket_length: "class_bracket s = (n, t) \<Longrightarrow> length t \<le> length s"
  by (cases s) (auto simp: class_bracket_def split: if_splits char.splits bool.splits)

lemma length_tl_less: "xs \<noteq> [] \<Longrightarrow> length (tl xs) < length xs"
  by (cases xs) auto

lemma class_text_length: "class_text s = Some (neg, body, rest) \<Longrightarrow> length rest < length s"
proof -
  assume a: "class_text s = Some (neg, body, rest)"
  obtain n s1 where n: "class_neg s = (n, s1)" by fastforce
  obtain f s2 where f: "class_bracket s1 = (f, s2)" by fastforce
  define d where "d = dropWhile (\<lambda>c. c \<noteq> CHR '']'') s2"
  have "rest = tl d" "d \<noteq> []" using a by (simp_all add: class_text_def n f d_def split: if_splits)
  moreover have "length d \<le> length s2" by (simp add: d_def length_dropWhile_le)
  ultimately show ?thesis
    using class_neg_length [OF n] class_bracket_length [OF f] length_tl_less [of d]
    by (metis le_trans less_le_trans)
qed

function parse_pat :: "string \<Rightarrow> pat list" where
  "parse_pat [] = []"
| "parse_pat (c # s) =
     (if c = CHR ''*'' then Star # parse_pat s
      else if c = CHR ''?'' then AnyChar # parse_pat s
      else if c = CHR ''['' then
        (case class_text s of
           None \<Rightarrow> LitChar c # parse_pat s
         | Some (neg, body, rest) \<Rightarrow> Class neg (class_items body) # parse_pat rest)
      else LitChar c # parse_pat s)"
  by pat_completeness auto
termination
  by (relation "measure length") (auto dest: class_text_length)

fun in_cls :: "char \<Rightarrow> cls \<Rightarrow> bool" where
  "in_cls c (One a) \<longleftrightarrow> c = a"
| "in_cls c (Range a b) \<longleftrightarrow> code a \<le> code c \<and> code c \<le> code b"

fun tok_match :: "pat \<Rightarrow> char \<Rightarrow> bool" where
  "tok_match AnyChar c \<longleftrightarrow> True"
| "tok_match (LitChar a) c \<longleftrightarrow> c = a"
| "tok_match (Class neg cs) c \<longleftrightarrow> (neg \<noteq> list_ex (in_cls c) cs)"
| "tok_match Star c \<longleftrightarrow> False"

fun pat_match :: "pat list \<Rightarrow> string \<Rightarrow> bool" where
  "pat_match [] s \<longleftrightarrow> s = []"
| "pat_match (Star # ps) s \<longleftrightarrow>
     pat_match ps s \<or> (case s of [] \<Rightarrow> False | _ # s' \<Rightarrow> pat_match (Star # ps) s')"
| "pat_match (p # ps) [] \<longleftrightarrow> False"
| "pat_match (p # ps) (c # s) \<longleftrightarrow> tok_match p c \<and> pat_match ps s"

definition fnmatch :: "string \<Rightarrow> string \<Rightarrow> bool" where
  "fnmatch name pattern \<longleftrightarrow> pat_match (parse_pat pattern) name"

section \<open>Facts\<close>

lemma pat_match_Star: "pat_match (Star # ps) s \<longleftrightarrow> (\<exists>a b. s = a @ b \<and> pat_match ps b)"
proof (induction s)
  case (Cons c s)
  have "pat_match (Star # ps) (c # s) \<longleftrightarrow> pat_match ps (c # s) \<or> pat_match (Star # ps) s" by simp
  also have "\<dots> \<longleftrightarrow> (\<exists>a b. c # s = a @ b \<and> pat_match ps b)"
    unfolding Cons.IH by (auto simp: Cons_eq_append_conv)
  finally show ?case .
qed simp

text \<open>A pattern without special characters matches itself only.\<close>

definition literal :: "string \<Rightarrow> bool" where
  "literal p \<longleftrightarrow> CHR ''*'' \<notin> set p \<and> CHR ''?'' \<notin> set p \<and> CHR ''['' \<notin> set p"

lemma parse_pat_literal: "literal p \<Longrightarrow> parse_pat p = map LitChar p"
  by (induction p) (auto simp: literal_def)

lemma pat_match_literals: "pat_match (map LitChar p @ ps) s \<longleftrightarrow> (\<exists>t. s = p @ t \<and> pat_match ps t)"
proof (induction p arbitrary: s)
  case (Cons c p)
  then show ?case by (cases s) auto
qed simp

lemma fnmatch_literal: "literal p \<Longrightarrow> fnmatch s p \<longleftrightarrow> s = p"
  using pat_match_literals [of p "[]" s] by (simp add: fnmatch_def parse_pat_literal)

lemma fnmatch_star_literal: "literal p \<Longrightarrow> fnmatch s (CHR ''*'' # p) \<longleftrightarrow> (\<exists>a. s = a @ p)"
  unfolding fnmatch_def using pat_match_literals [of p "[]"]
  by (auto simp: pat_match_Star parse_pat_literal simp del: pat_match.simps(2))

lemma parse_pat_literal_append: "literal p \<Longrightarrow> parse_pat (p @ q) = map LitChar p @ parse_pat q"
  by (induction p) (auto simp: literal_def)

lemma fnmatch_literal_star: "literal p \<Longrightarrow> fnmatch s (p @ ''*'') \<longleftrightarrow> (\<exists>t. s = p @ t)"
  unfolding fnmatch_def
  by (auto simp: parse_pat_literal_append pat_match_literals pat_match_Star
      simp del: pat_match.simps(2))

end
