(* ===== verification/CopyTree.thy ===== *)
theory CopyTree
  imports FileTree Fnmatch
begin

text \<open>
  \<open>ignore_patterns\<close> and the recursive copy of \<open>shutil.copytree\<close> that calls it: which files of the
  upstream checkout reach the target directory.
\<close>

section \<open>The exclusions\<close>

definition rel_to_base :: "string \<Rightarrow> string \<Rightarrow> string \<Rightarrow> string \<Rightarrow> string" where
  "rel_to_base cwd base_dir path name = relpath cwd (os_join path name) base_dir"

text \<open>The names of a directory that some pattern matches; the code makes a set of this list.\<close>

definition ignore_patterns ::
  "string \<Rightarrow> string \<Rightarrow> string list \<Rightarrow> string \<Rightarrow> string list \<Rightarrow> string list"
where
  "ignore_patterns cwd base_dir patterns path names =
     concat (map (\<lambda>pattern. filter (\<lambda>n. fnmatch (rel_to_base cwd base_dir path n) pattern) names)
                 patterns)"

section \<open>The copy\<close>

text \<open>The directory being copied is known by its path string, to which each level adds a name; the
  ignored names of a directory are found once, before its entries are copied.\<close>

fun copy_node :: "(string \<Rightarrow> string list \<Rightarrow> string list) \<Rightarrow> string \<Rightarrow> node \<Rightarrow> node"
  and copy_entries ::
    "(string \<Rightarrow> string list \<Rightarrow> string list) \<Rightarrow> string \<Rightarrow> string list \<Rightarrow> (string, node) dict
      \<Rightarrow> (string, node) dict"
where
  "copy_node ign path (File s) = File s"
| "copy_node ign path (Dir es) = Dir (copy_entries ign path (ign path (dict_keys es)) es)"
| "copy_entries ign path ignored [] = []"
| "copy_entries ign path ignored ((n, c) # es) =
     (if n \<in> set ignored then copy_entries ign path ignored es
      else (n, copy_node ign (os_join path n) c) # copy_entries ign path ignored es)"

lemma dict_get_copy_entries:
  "dict_get (copy_entries ign path ignored es) n =
     (if n \<in> set ignored then None else map_option (copy_node ign (os_join path n)) (dict_get es n))"
  by (induction es) auto

section \<open>Relative paths\<close>

lemma common_prefix_append: "common_prefix xs (xs @ ys) = length xs"
  by (induction xs) auto

lemma filter_clean: "list_all clean cs \<Longrightarrow> filter (\<lambda>c. c \<noteq> []) cs = cs"
  by (induction cs) (auto simp: cleanD)

text \<open>The string of an absolute path without dot components, and its normal form.\<close>

definition abs_str :: "loc \<Rightarrow> string" where
  "abs_str cs = ''/'' @ join_with ''/'' cs"

lemma split_abs_str: "list_all clean cs \<Longrightarrow> cs \<noteq> [] \<Longrightarrow> split_on (CHR ''/'') (abs_str cs) = [] # cs"
  using split_on_join [of cs "CHR ''/''"] by (auto simp: abs_str_def list_all_iff cleanD)

lemma norm_loop_clean: "list_all clean cs \<Longrightarrow> norm_loop r acc cs = rev acc @ cs"
  by (induction cs arbitrary: acc) (auto simp: cleanD)

lemma abs_str_one_slash: "list_all clean cs \<Longrightarrow> initial_slashes (abs_str cs) = 1"
proof (cases "cs = []")
  case False
  assume "list_all clean cs"
  then have "\<not> startswith (join_with ''/'' cs) ''/''"
    using False by (intro join_startswith_slash) (auto simp: list_all_iff cleanD)
  then show ?thesis by (auto simp: initial_slashes_def abs_str_def)
qed (simp add: initial_slashes_def abs_str_def)

lemma abspath_abs_str:
  assumes "list_all clean cs" "cs \<noteq> []"
  shows "abspath cwd (abs_str cs) = abs_str cs"
proof -
  have "norm_loop True [] ([] # cs) = cs" using norm_loop_clean [OF assms(1), of True "[]"] by simp
  moreover have "abs_str cs \<noteq> []" "startswith (abs_str cs) ''/''" by (simp_all add: abs_str_def)
  ultimately show ?thesis
    using assms abs_str_one_slash [OF assms(1)]
    by (simp add: abspath_def normpath_def split_abs_str) (simp add: abs_str_def)
qed

lemma relpath_below:
  assumes "list_all clean (bs @ cs)" "bs \<noteq> []" "cs \<noteq> []"
  shows "relpath cwd (abs_str (bs @ cs)) (abs_str bs) = join_with ''/'' cs"
proof -
  have "list_all clean bs" using assms(1) by simp
  then have "filter (\<lambda>c. c \<noteq> []) (split_on (CHR ''/'') (abspath cwd (abs_str bs))) = bs"
    "filter (\<lambda>c. c \<noteq> []) (split_on (CHR ''/'') (abspath cwd (abs_str (bs @ cs)))) = bs @ cs"
    using assms by (simp_all add: abspath_abs_str split_abs_str filter_clean)
  then show ?thesis using assms(3) by (simp add: relpath_def Let_def common_prefix_append)
qed

lemma join_with_snoc: "cs \<noteq> [] \<Longrightarrow> join_with sep (cs @ [c]) = join_with sep cs @ sep @ c"
proof (induction cs)
  case (Cons a cs)
  then show ?case by (cases "cs = []") (auto simp: join_with_Cons)
qed simp

lemma join_with_last:
  assumes "cs \<noteq> []" "last cs \<noteq> []"
  shows "join_with sep cs \<noteq> [] \<and> last (join_with sep cs) = last (last cs)"
proof -
  obtain xs c where cs: "cs = xs @ [c]" using assms(1) by (cases cs rule: rev_cases) auto
  then show ?thesis using assms(2) by (cases "xs = []") (auto simp: join_with_snoc)
qed

lemma os_join_abs_str:
  assumes "list_all clean cs" "cs \<noteq> []" "clean n"
  shows "os_join (abs_str cs) n = abs_str (cs @ [n])"
proof -
  have l: "last cs \<noteq> []" "CHR ''/'' \<notin> set (last cs)"
    using assms(1,2) by (simp_all add: list_all_iff cleanD)
  then have "last (abs_str cs) \<noteq> CHR ''/''"
    using assms(2) join_with_last [of cs "''/''"] by (simp add: abs_str_def) (metis last_in_set)
  moreover have "\<not> startswith n ''/''" using assms(3) by (cases n) (auto dest: cleanD)
  ultimately show ?thesis
    using assms(2) by (simp add: os_join_def abs_str_def join_with_snoc)
qed

section \<open>What the copy holds\<close>

text \<open>Every name of a tree is a proper component, as the system guarantees.\<close>

fun names_clean :: "node \<Rightarrow> bool" and entries_clean :: "(string, node) dict \<Rightarrow> bool" where
  "names_clean (File s) \<longleftrightarrow> True"
| "names_clean (Dir es) \<longleftrightarrow> entries_clean es"
| "entries_clean [] \<longleftrightarrow> True"
| "entries_clean ((n, c) # es) \<longleftrightarrow> clean n \<and> names_clean c \<and> entries_clean es"

lemma entries_clean_get: "entries_clean es \<Longrightarrow> dict_get es n = Some c \<Longrightarrow> clean n \<and> names_clean c"
  by (induction es) (auto split: if_splits)

lemma in_dict_keys: "dict_get es n = Some c \<Longrightarrow> n \<in> set (dict_keys es)"
  by (induction es) (auto simp: dict_keys_def split: if_splits)

lemma node_at_names_clean: "names_clean n \<Longrightarrow> node_at ps n \<noteq> None \<Longrightarrow> list_all clean ps"
proof (induction ps n rule: node_at.induct)
  case (3 c cs es)
  then show ?case using entries_clean_get [of es c] by (auto split: option.splits)
qed auto

text \<open>Joining proper components gives a slash-free word only from that word.\<close>

lemma join_with_one_iff:
  "list_all clean cs \<Longrightarrow> cs \<noteq> [] \<Longrightarrow> CHR ''/'' \<notin> set w \<Longrightarrow> join_with ''/'' cs = w \<longleftrightarrow> cs = [w]"
  by (cases cs; cases "tl cs") (auto simp: join_with_Cons)

text \<open>A path relative to the base directory is excluded when it, or a directory on the way from
  the directory that is copied, matches a pattern.\<close>

definition excluded :: "string list \<Rightarrow> loc \<Rightarrow> loc \<Rightarrow> bool" where
  "excluded patterns from ps \<longleftrightarrow>
     (\<exists>k\<in>{1..length ps}. \<exists>pattern\<in>set patterns. fnmatch (join_with ''/'' (from @ take k ps)) pattern)"

lemma excluded_Nil [simp]: "\<not> excluded patterns from []"
  by (simp add: excluded_def)

lemma ex_interval_Suc: "(\<exists>k\<in>{1..Suc m}. Q k) \<longleftrightarrow> Q 1 \<or> (\<exists>k\<in>{1..m}. Q (Suc k))"
proof -
  have eq: "{1..Suc m} = insert 1 (Suc ` {1..m})" by (auto simp: image_iff)
  show ?thesis unfolding eq by blast
qed

lemma excluded_Cons:
  "excluded patterns from (p # ps) \<longleftrightarrow>
     (\<exists>pattern\<in>set patterns. fnmatch (join_with ''/'' (from @ [p])) pattern)
     \<or> excluded patterns (from @ [p]) ps"
  unfolding excluded_def
  using ex_interval_Suc [of "length ps"
      "\<lambda>k. \<exists>pattern\<in>set patterns. fnmatch (join_with ''/'' (from @ take k (p # ps))) pattern"]
  by simp

lemma ignore_patterns_base:
  assumes "list_all clean (bs @ fs)" "bs \<noteq> []" "clean n"
  shows "n \<in> set (ignore_patterns cwd (abs_str bs) patterns (abs_str (bs @ fs)) names) \<longleftrightarrow>
    n \<in> set names \<and> (\<exists>pattern\<in>set patterns. fnmatch (join_with ''/'' (fs @ [n])) pattern)"
proof -
  have "rel_to_base cwd (abs_str bs) (abs_str (bs @ fs)) n = join_with ''/'' (fs @ [n])"
    using assms os_join_abs_str [of "bs @ fs" n] relpath_below [of bs "fs @ [n]" cwd]
    by (simp add: rel_to_base_def)
  then show ?thesis by (auto simp: ignore_patterns_def)
qed

lemma node_at_copy:
  assumes "names_clean n" "list_all clean (bs @ fs)" "bs \<noteq> []"
    and ign_def: "ign = ignore_patterns cwd (abs_str bs) patterns"
  shows "node_at ps (copy_node ign (abs_str (bs @ fs)) n) =
    (if excluded patterns fs ps then None
     else map_option (copy_node ign (abs_str (bs @ fs @ ps))) (node_at ps n))"
  using assms(1,2)
proof (induction ps arbitrary: n fs)
  case (Cons p ps)
  show ?case
  proof (cases n)
    case (Dir es)
    show ?thesis
    proof (cases "dict_get es p")
      case (Some c)
      then have p: "clean p" "names_clean c" "p \<in> set (dict_keys es)"
        using entries_clean_get in_dict_keys Dir Cons.prems(1) by auto
      have join: "os_join (abs_str (bs @ fs)) p = abs_str (bs @ fs @ [p])"
        using os_join_abs_str [of "bs @ fs" p] Cons.prems(2) assms(3) p(1) by simp
      have mem: "p \<in> set (ign (abs_str (bs @ fs)) (dict_keys es)) \<longleftrightarrow>
          (\<exists>pattern\<in>set patterns. fnmatch (join_with ''/'' (fs @ [p])) pattern)"
        unfolding ign_def using ignore_patterns_base [OF Cons.prems(2) assms(3) p(1)] p(3) by simp
      have "node_at ps (copy_node ign (abs_str (bs @ fs @ [p])) c) =
          (if excluded patterns (fs @ [p]) ps then None
           else map_option (copy_node ign (abs_str (bs @ fs @ p # ps))) (node_at ps c))"
        using Cons.IH [of c "fs @ [p]"] Cons.prems(2) p by simp
      then show ?thesis
        using Some Dir mem join by (simp add: dict_get_copy_entries excluded_Cons)
    qed (simp add: Dir dict_get_copy_entries)
  qed simp
qed simp

end
