(* ===== verification/PyNum.thy ===== *)
theory PyNum
  imports PyText
begin

text \<open>
  Integers and their numerals as Python reads and prints them: \<open>str(n)\<close>, \<open>int(s, 16)\<close>,
  the format \<open>{n:0wX}\<close> and \<open>int.bit_length\<close>, with the facts that reading inverts printing
  and how many digits a number needs.
\<close>

section \<open>Digits\<close>

fun nat_digits :: "nat \<Rightarrow> nat \<Rightarrow> nat list" where
  "nat_digits b n = (if b < 2 \<or> n < b then [n] else nat_digits b (n div b) @ [n mod b])"

declare nat_digits.simps [simp del]

definition undigits :: "nat \<Rightarrow> nat list \<Rightarrow> nat" where
  "undigits b ds = foldl (\<lambda>n d. b * n + d) 0 ds"

lemma undigits_append [simp]: "undigits b (ds @ [d]) = b * undigits b ds + d"
  by (simp add: undigits_def)

lemma undigits_single [simp]: "undigits b [d] = d"
  by (simp add: undigits_def)

lemma undigits_nat_digits: "undigits b (nat_digits b n) = n"
proof (induction b n rule: nat_digits.induct)
  case (1 b n)
  then show ?case by (subst nat_digits.simps) auto
qed

lemma nat_digits_bound: "2 \<le> b \<Longrightarrow> d \<in> set (nat_digits b n) \<Longrightarrow> d < b"
proof (induction b n rule: nat_digits.induct)
  case (1 b n)
  then show ?case by (subst (asm) nat_digits.simps) (auto split: if_splits)
qed

lemma nat_digits_ne [simp]: "nat_digits b n \<noteq> []"
  by (subst nat_digits.simps) simp

lemma length_nat_digits_le:
  "2 \<le> b \<Longrightarrow> 0 < k \<Longrightarrow> length (nat_digits b n) \<le> k \<longleftrightarrow> n < b ^ k"
proof (induction b n arbitrary: k rule: nat_digits.induct)
  case (1 b n)
  show ?case
  proof (cases "n < b")
    case True
    have "b ^ 1 \<le> b ^ k" using "1.prems" by (intro power_increasing) auto
    with True "1.prems" show ?thesis by (subst nat_digits.simps) auto
  next
    case False
    show ?thesis
    proof (cases k)
      case (Suc j)
      show ?thesis
      proof (cases "j = 0")
        case True
        have "nat_digits b n = nat_digits b (n div b) @ [n mod b]"
          using False "1.prems" by (subst nat_digits.simps) simp
        then show ?thesis using False Suc True "1.prems"
          by (cases "nat_digits b (n div b)") auto
      next
        case j: False
        have "length (nat_digits b n) \<le> k \<longleftrightarrow> length (nat_digits b (n div b)) \<le> j"
          using False "1.prems" Suc by (subst nat_digits.simps) simp
        also have "\<dots> \<longleftrightarrow> n div b < b ^ j" using "1.IH" [of j] False "1.prems" j by simp
        also have "\<dots> \<longleftrightarrow> n < b ^ k"
          using "1.prems" Suc by (simp add: div_less_iff_less_mult mult.commute)
        finally show ?thesis .
      qed
    qed (use "1.prems" in simp)
  qed
qed

section \<open>Decimal and hexadecimal numerals\<close>

definition digit_char :: "nat \<Rightarrow> char" where
  "digit_char d = (if d < 10 then char_of (48 + d) else char_of (55 + d))"

text \<open>\<open>str(n)\<close> and \<open>format(n, 'X')\<close>.\<close>

definition dec_str :: "nat \<Rightarrow> string" where
  "dec_str n = map digit_char (nat_digits 10 n)"

definition hex_str :: "nat \<Rightarrow> string" where
  "hex_str n = map digit_char (nat_digits 16 n)"

text \<open>The format \<open>{n:0wX}\<close>: at least \<open>w\<close> digits.\<close>

definition zero_pad :: "nat \<Rightarrow> string \<Rightarrow> string" where
  "zero_pad w s = replicate (w - length s) (CHR ''0'') @ s"

definition hex_pad :: "nat \<Rightarrow> nat \<Rightarrow> string" where
  "hex_pad w n = zero_pad w (hex_str n)"

definition is_hex :: "char \<Rightarrow> bool" where
  "is_hex c \<longleftrightarrow> is_digit c \<or> (65 \<le> code c \<and> code c \<le> 70) \<or> (97 \<le> code c \<and> code c \<le> 102)"

definition hex_val :: "char \<Rightarrow> nat" where
  "hex_val c =
     (if is_digit c then code c - 48 else if code c \<le> 70 then code c - 55 else code c - 87)"

text \<open>\<open>int(s, 16)\<close> for a nonempty string of hexadecimal digits.\<close>

definition int16 :: "string \<Rightarrow> nat" where
  "int16 s = undigits 16 (map hex_val s)"

definition int10 :: "string \<Rightarrow> nat" where
  "int10 s = undigits 10 (map (\<lambda>c. code c - 48) s)"

fun bit_length :: "nat \<Rightarrow> nat" where
  "bit_length n = (if n = 0 then 0 else Suc (bit_length (n div 2)))"

declare bit_length.simps [simp del]

lemma code_char_of [simp]: "n < 256 \<Longrightarrow> code (char_of n) = n"
  by (simp add: code_def)

lemma hex_val_digit_char [simp]: "d < 16 \<Longrightarrow> hex_val (digit_char d) = d"
  by (auto simp: hex_val_def digit_char_def is_digit_def)

lemma is_hex_digit_char [simp]: "d < 16 \<Longrightarrow> is_hex (digit_char d)"
  by (auto simp: is_hex_def digit_char_def is_digit_def)

lemma hex_val_bound: "is_hex c \<Longrightarrow> hex_val c < 16"
  by (auto simp: is_hex_def hex_val_def is_digit_def)

lemma hex_str_digits: "c \<in> set (hex_str n) \<Longrightarrow> is_hex c"
  by (auto simp: hex_str_def dest: nat_digits_bound [rotated])

lemma int16_hex_str [simp]: "int16 (hex_str n) = n"
proof -
  have "map (hex_val \<circ> digit_char) (nat_digits 16 n) = nat_digits 16 n"
    by (intro map_idI) (auto dest!: nat_digits_bound [rotated])
  then show ?thesis by (simp add: int16_def hex_str_def undigits_nat_digits)
qed

lemma foldl_zeros: "foldl (\<lambda>n d. 16 * n + d) (0::nat) (replicate k 0) = 0"
  by (induction k) auto

lemma hex_val_zero [simp]: "hex_val (CHR ''0'') = 0"
  by (simp add: hex_val_def is_digit_def code_def)

lemma is_hex_zero [simp]: "is_hex (CHR ''0'')"
  by (simp add: is_hex_def is_digit_def code_def)

lemma int16_hex_pad [simp]: "int16 (hex_pad w n) = n"
  using int16_hex_str [of n]
  by (simp add: int16_def hex_pad_def zero_pad_def undigits_def foldl_zeros)

lemma length_hex_pad: "0 < w \<Longrightarrow> n < 16 ^ w \<Longrightarrow> length (hex_pad w n) = w"
  using length_nat_digits_le [of 16 w n] by (simp add: hex_pad_def zero_pad_def hex_str_def)

lemma hex_pad_digits: "c \<in> set (hex_pad w n) \<Longrightarrow> is_hex c"
  by (auto simp: hex_pad_def zero_pad_def dest: hex_str_digits split: if_splits)

lemma int16_bound: "(\<forall>c\<in>set s. is_hex c) \<Longrightarrow> int16 s < 16 ^ length s"
proof (induction s rule: rev_induct)
  case (snoc c s)
  then have "int16 s < 16 ^ length s" "hex_val c < 16" by (auto dest: hex_val_bound)
  then show ?case by (simp add: int16_def)
qed (simp add: int16_def undigits_def)

lemma bit_length_bound: "n < 2 ^ bit_length n"
proof (induction n rule: bit_length.induct)
  case (1 n)
  then show ?case by (cases "n = 0") (simp_all add: bit_length.simps [of n])
qed

lemma bit_length_le: "n < 2 ^ k \<Longrightarrow> bit_length n \<le> k"
proof (induction n arbitrary: k rule: bit_length.induct)
  case (1 n)
  show ?case
  proof (cases "n = 0")
    case False
    then obtain j where j: "k = Suc j" using "1.prems" by (cases k) auto
    then have "n div 2 < 2 ^ j" using "1.prems" by simp
    then show ?thesis using "1.IH" [OF False] j False by (simp add: bit_length.simps [of n])
  qed (simp add: bit_length.simps)
qed

end
