(* ===== verification/Config.thy ===== *)
theory Config
  imports PathNorm PyNum
begin

text \<open>
  The configuration of \<open>vendor.py\<close>: the checked field access \<open>get_field\<close>, the classes
  \<open>Upstream\<close>, \<open>PatchRepo\<close>, \<open>Mapping1\<close>, \<open>Mapping\<close>, \<open>LockDesc\<close> and \<open>Desc\<close> with
  their constructors, the command line overrides, and the path of the lock file. The Hjson
  parser is third-party code: it is the parameter \<open>loads\<close> of the definitions that use it.
\<close>

section \<open>Checked access to a field\<close>

definition get_field ::
  "string \<Rightarrow> string \<Rightarrow> json \<Rightarrow> string \<Rightarrow> pytype \<Rightarrow> bool \<Rightarrow> (json \<Rightarrow> 'a res) \<Rightarrow> 'a option res"
where
  "get_field pth wh data name expected_type optional constructor =
     (case data of
        JDict d \<Rightarrow>
          (case (case dict_get d name of None \<Rightarrow> JNull | Some v \<Rightarrow> v) of
             JNull \<Rightarrow>
               if \<not> optional then Inl (JsonError pth (MissingField wh name)) else Inr None
           | value \<Rightarrow>
               if \<not> isinstance value expected_type
               then Inl (JsonError pth (WrongFieldType wh name value expected_type))
               else rbind (constructor value) (\<lambda>x. Inr (Some x)))
      | _ \<Rightarrow> Inl AttributeError)"

text \<open>The value of a field that is not optional; \<open>get_field\<close> never gives \<open>None\<close> for it.\<close>

definition required :: "'a option res \<Rightarrow> 'a res" where
  "required m = rbind m (\<lambda>v. case v of None \<Rightarrow> Inl AttributeError | Some x \<Rightarrow> Inr x)"

text \<open>With no constructor the value is kept: here, read at the type that was checked.\<close>

fun as_str :: "json \<Rightarrow> string res" where
  "as_str (JStr s) = Inr s"
| "as_str _ = Inl TypeError"

fun as_list :: "json \<Rightarrow> json list res" where
  "as_list (JList l) = Inr l"
| "as_list _ = Inl TypeError"

section \<open>Upstream and PatchRepo\<close>

record upstream =
  u_url :: string
  u_rev :: string
  u_only_subdir :: "string option"

definition Upstream :: "string \<Rightarrow> json \<Rightarrow> upstream res" where
  "Upstream pth data =
     (let wh = ''in upstream dict'' in
      rbind (required (get_field pth wh data ''url'' TStr False as_str)) (\<lambda>u.
      rbind (required (get_field pth wh data ''rev'' TStr False as_str)) (\<lambda>r.
      rbind (get_field pth wh data ''only_subdir'' TStr True as_str) (\<lambda>s.
      Inr \<lparr>u_url = u, u_rev = r, u_only_subdir = s\<rparr>))))"

definition as_dict :: "upstream \<Rightarrow> json" where
  "as_dict u =
     (let data = [(''url'', JStr (u_url u)), (''rev'', JStr (u_rev u))] in
      JDict (case u_only_subdir u of
               None \<Rightarrow> data
             | Some s \<Rightarrow> dict_set ''only_subdir'' (JStr s) data))"

record patch_repo =
  pr_url :: string
  rev_base :: string
  rev_patched :: string

definition PatchRepo :: "string \<Rightarrow> json \<Rightarrow> patch_repo res" where
  "PatchRepo pth data =
     (let wh = ''in patch_repo dict'' in
      rbind (required (get_field pth wh data ''url'' TStr False as_str)) (\<lambda>u.
      rbind (required (get_field pth wh data ''rev_base'' TStr False as_str)) (\<lambda>b.
      rbind (required (get_field pth wh data ''rev_patched'' TStr False as_str)) (\<lambda>p.
      Inr \<lparr>pr_url = u, rev_base = b, rev_patched = p\<rparr>))))"

section \<open>Mappings\<close>

record mapping1 =
  from_path :: path
  to_path :: path
  m_patch_dir :: "path option"

text \<open>The inner function \<open>get_path\<close>: normalise, refuse a path that leaves its directory.\<close>

definition get_path :: "string \<Rightarrow> nat \<Rightarrow> json \<Rightarrow> string \<Rightarrow> bool \<Rightarrow> path option res" where
  "get_path pth idx data name optional =
     rbind (get_field pth (''in mapping entry '' @ dec_str (idx + 1)) data name TStr optional as_str) (\<lambda>v.
       case v of
         None \<Rightarrow> Inr None
       | Some raw \<Rightarrow>
           let val = normpath raw in
           if startswith val ''/'' \<or> startswith val ''..''
           then Inl (JsonError pth (BadMappingPath (idx + 1) name))
           else Inr (Some (mk_path val)))"

definition Mapping1_make :: "string \<Rightarrow> nat \<Rightarrow> json \<Rightarrow> mapping1 res" where
  "Mapping1_make pth idx data =
     (if \<not> isinstance data TDict then Inl AssertionError
      else
        rbind (required (get_path pth idx data ''from'' False)) (\<lambda>f.
        rbind (required (get_path pth idx data ''to'' False)) (\<lambda>t.
        rbind (get_path pth idx data ''patch_dir'' True) (\<lambda>p.
        Inr \<lparr>from_path = f, to_path = t, m_patch_dir = p\<rparr>))))"

definition Mapping1_make_default :: "bool \<Rightarrow> mapping1" where
  "Mapping1_make_default have_patch_dir =
     \<lparr>from_path = mk_path ''.'', to_path = mk_path ''.'',
      m_patch_dir = (if have_patch_dir then Some (mk_path ''.'') else None)\<rparr>"

fun Mapping_items :: "string \<Rightarrow> nat \<Rightarrow> json list \<Rightarrow> mapping1 list res" where
  "Mapping_items pth idx [] = Inr []"
| "Mapping_items pth idx (elt # elts) =
     (if \<not> isinstance elt TDict then Inl (JsonError pth (MappingElementNotDict elt))
      else
        rbind (Mapping1_make pth idx elt) (\<lambda>m.
        rbind (Mapping_items pth (Suc idx) elts) (\<lambda>ms. Inr (m # ms))))"

definition Mapping_make :: "string \<Rightarrow> json \<Rightarrow> mapping1 list res" where
  "Mapping_make pth data =
     (case data of JList l \<Rightarrow> Mapping_items pth 0 l | _ \<Rightarrow> Inl AssertionError)"

definition has_patch_dir :: "mapping1 list \<Rightarrow> bool" where
  "has_patch_dir items \<longleftrightarrow> (\<exists>m\<in>set items. m_patch_dir m \<noteq> None)"

section \<open>Files that are read\<close>

record handle =
  h_name :: string
  h_text :: string

definition LockDesc :: "(string \<Rightarrow> json res) \<Rightarrow> handle \<Rightarrow> upstream res" where
  "LockDesc loads h =
     rbind (loads (h_text h)) (\<lambda>data.
       required (get_field (h_name h) ''at top-level'' data ''upstream'' TDict False
                   (Upstream (h_name h))))"

section \<open>Overrides from the command line\<close>

definition OVERRIDABLE_DESC_KEYS :: "string list" where
  "OVERRIDABLE_DESC_KEYS =
     [''patch_repo.url'', ''patch_repo.rev_base'', ''patch_repo.rev_patched'',
      ''upstream.url'', ''upstream.rev'']"

definition strip :: "string \<Rightarrow> string" where
  "strip s = rev (dropWhile is_space (rev (dropWhile is_space s)))"

definition define_arg_type :: "string \<Rightarrow> (string \<times> string) res" where
  "define_arg_type arg =
     (case map strip (split_max 2 (CHR ''='') arg) of
        [key, value] \<Rightarrow>
          if key \<notin> set OVERRIDABLE_DESC_KEYS
          then Inl (ArgumentTypeError ''invalid configuration override'' key)
          else Inr (key, value)
      | _ \<Rightarrow> Inl (ArgumentTypeError ''unable to parse'' arg))"

text \<open>
  One override: walk down the dotted key, creating dictionaries on the way, and assign the last
  part. Anything that is not a dictionary on the way raises \<open>TypeError\<close>, whether the membership
  test, the subscript or the assignment is what fails.
\<close>

fun override_at :: "string list \<Rightarrow> json \<Rightarrow> json \<Rightarrow> json res" where
  "override_at [] value ref = Inl IndexError"
| "override_at [k] value (JDict d) = Inr (JDict (dict_set k value d))"
| "override_at (k # k' # ks) value (JDict d) =
     rbind (override_at (k' # ks) value (case dict_get d k of None \<Rightarrow> JDict [] | Some r \<Rightarrow> r))
       (\<lambda>r. Inr (JDict (dict_set k r d)))"
| "override_at (k # ks) value ref = Inl TypeError"

fun apply_overrides :: "json \<Rightarrow> (string \<times> string) list \<Rightarrow> json res" where
  "apply_overrides data [] = Inr data"
| "apply_overrides data ((key, value) # ovs) =
     rbind (override_at (split_on (CHR ''.'') key) (JStr value) data)
       (\<lambda>data'. apply_overrides data' ovs)"

section \<open>The description file\<close>

definition EXCLUDE_ALWAYS :: "string list" where
  "EXCLUDE_ALWAYS = [''.git'']"

text \<open>\<open>re.match(r'.+\.vendor\.hjson', name)\<close>: anchored at the start only; the dot stops at a
  newline.\<close>

fun vendor_suffix_later :: "string \<Rightarrow> bool" where
  "vendor_suffix_later s \<longleftrightarrow> startswith s ''.vendor.hjson'' \<or>
     (case s of [] \<Rightarrow> False | c # cs \<Rightarrow> c \<noteq> newline \<and> vendor_suffix_later cs)"

definition desc_name_ok :: "string \<Rightarrow> bool" where
  "desc_name_ok s \<longleftrightarrow> (case s of [] \<Rightarrow> False | c # cs \<Rightarrow> c \<noteq> newline \<and> vendor_suffix_later cs)"

declare vendor_suffix_later.simps [simp del]

record desc =
  d_path :: path
  d_name :: string
  d_target_dir :: path
  d_upstream :: upstream
  d_patch_dir :: "path option"
  d_patch_repo :: "patch_repo option"
  d_exclude :: "string list"
  d_mapping :: "mapping1 list option"

text \<open>The consistency checks after the fields are read, in the order of the constructor.\<close>

definition check_desc ::
  "string \<Rightarrow> path option \<Rightarrow> patch_repo option \<Rightarrow> mapping1 list option \<Rightarrow> unit res"
where
  "check_desc pth patch_dir repo mapping =
     rbind (raise_if (repo \<noteq> None \<and> patch_dir = None) (JsonError pth PatchRepoWithoutPatchDir)) (\<lambda>_.
     rbind (raise_if (repo \<noteq> None \<and> mapping \<noteq> None) (JsonError pth PatchRepoWithMapping)) (\<lambda>_.
     case mapping of
       None \<Rightarrow> Inr ()
     | Some items \<Rightarrow>
         if patch_dir \<noteq> None
         then raise_if (\<not> has_patch_dir items) (JsonError pth PatchDirUnused)
         else raise_if (has_patch_dir items) (JsonError pth MappingPatchDirWithoutGlobal)))"

text \<open>The check that every exclusion is a string.\<close>

definition check_exclude :: "string \<Rightarrow> json list \<Rightarrow> string list res" where
  "check_exclude pth efus =
     rmap (\<lambda>efu. case efu of JStr s \<Rightarrow> Inr s | _ \<Rightarrow> Inl (JsonError pth (ExcludeNotString efu))) efus"

definition Desc :: "(string \<Rightarrow> json res) \<Rightarrow> handle \<Rightarrow> (string \<times> string) list \<Rightarrow> desc res" where
  "Desc loads h overrides =
     (if \<not> desc_name_ok (h_name h) then Inl (ValueError ''Description file names'')
      else
        let wh = ''at top-level''; pth = mk_path (h_name h); ps = path_str pth;
            take_path = (\<lambda>v. rbind (as_str v) (\<lambda>p. Inr (path_join (path_parent pth) (mk_path p))))
        in
        rbind (loads (h_text h)) (\<lambda>data0.
        rbind (apply_overrides data0 overrides) (\<lambda>data.
        rbind (required (get_field ps wh data ''name'' TStr False as_str)) (\<lambda>nm.
        rbind (required (get_field ps wh data ''target_dir'' TStr False take_path)) (\<lambda>target.
        rbind (required (get_field ps wh data ''upstream'' TDict False (Upstream ps))) (\<lambda>ups.
        rbind (get_field ps wh data ''patch_dir'' TStr True take_path) (\<lambda>pdir.
        rbind (get_field ps wh data ''patch_repo'' TDict True (PatchRepo ps)) (\<lambda>prepo.
        rbind (get_field ps wh data ''exclude_from_upstream'' TList True as_list) (\<lambda>excl.
        rbind (get_field ps wh data ''mapping'' TList True (Mapping_make ps)) (\<lambda>mapping.
        rbind (check_desc ps pdir prepo mapping) (\<lambda>_.
        rbind (check_exclude ps ((case excl of None \<Rightarrow> [] | Some l \<Rightarrow> l) @ map JStr EXCLUDE_ALWAYS))
          (\<lambda>exclude.
        Inr \<lparr>d_path = pth, d_name = nm, d_target_dir = target, d_upstream = ups,
             d_patch_dir = pdir, d_patch_repo = prepo, d_exclude = exclude,
             d_mapping = mapping\<rparr>))))))))))))"

definition lock_file_path :: "desc \<Rightarrow> path res" where
  "lock_file_path d =
     (let stem = hd (rsplit_max 2 (CHR ''.'') (path_name (d_path d)))
      in with_name (d_path d) (stem @ ''.lock.hjson''))"

end
