(* ===== verification/World.thy ===== *)
theory World
  imports CopyTree Config
begin

text \<open>
  Programs that act on the outside world: the file system, the working directory and the commands
  that are run. A program is a function from the world to a result (or an exception) and the
  world it leaves; every action that changes something is recorded in a trace.

  The commands themselves (all of them \<open>git\<close>) are not code of the repository. They are a
  parameter: a function of the argument list, the directory, the input and the file system.
\<close>

datatype event =
  Run "string list" loc string
| MkDir loc
| RmTree loc
| Unlink loc
| CopyFile loc loc
| CopyTree loc loc
| WriteFile loc string
| MkTemp loc
| RmTemp loc

record world =
  tree :: node
  cwd :: loc
  trace :: "event list"

type_synonym command = "string list \<Rightarrow> loc \<Rightarrow> string \<Rightarrow> node \<Rightarrow> int \<times> string \<times> string \<times> node"

text \<open>The parameters: the commands, the choice of a fresh temporary directory, the Hjson library,
  the split of a text into chunks, and the verbosity flag.\<close>

record env =
  ext :: command
  mktemp :: "node \<Rightarrow> loc"
  hjson_loads :: "string \<Rightarrow> json res"
  hjson_dumps :: "json \<Rightarrow> string"
  chunks :: "string \<Rightarrow> string list"
  verbose :: bool

section \<open>Programs\<close>

type_synonym 'a io = "world \<Rightarrow> 'a res \<times> world"

definition ret :: "'a \<Rightarrow> 'a io" where
  "ret x w = (Inr x, w)"

definition raise :: "exn \<Rightarrow> 'a io" where
  "raise e w = (Inl e, w)"

definition bind :: "'a io \<Rightarrow> ('a \<Rightarrow> 'b io) \<Rightarrow> 'b io" where
  "bind m f w = (case m w of (Inl e, w') \<Rightarrow> (Inl e, w') | (Inr x, w') \<Rightarrow> f x w')"

definition lift :: "'a res \<Rightarrow> 'a io" where
  "lift r w = (r, w)"

text \<open>\<open>try: m except e: h e\<close>, for the exceptions the handler knows.\<close>

definition catch :: "'a io \<Rightarrow> (exn \<Rightarrow> 'a io option) \<Rightarrow> 'a io" where
  "catch m h w =
     (case m w of
        (Inl e, w') \<Rightarrow> (case h e of None \<Rightarrow> (Inl e, w') | Some m' \<Rightarrow> m' w')
      | (Inr x, w') \<Rightarrow> (Inr x, w'))"

fun for_each :: "'a list \<Rightarrow> ('a \<Rightarrow> unit io) \<Rightarrow> unit io" where
  "for_each [] f = ret ()"
| "for_each (x # xs) f = bind (f x) (\<lambda>_. for_each xs f)"

lemma io_run [io_simps]:
  "ret x w = (Inr x, w)"
  "raise e w = (Inl e, w)"
  "lift r w = (r, w)"
  "bind m f w = (case m w of (Inl e, w') \<Rightarrow> (Inl e, w') | (Inr x, w') \<Rightarrow> f x w')"
  by (simp_all add: ret_def raise_def bind_def lift_def)

lemma bind_ret [simp]: "bind (ret x) f = f x"
  by (rule ext) (simp add: io_simps)

lemma bind_raise [simp]: "bind (raise e) f = raise e"
  by (rule ext) (simp add: io_simps)

lemma bind_assoc: "bind (bind m f) g = bind m (\<lambda>x. bind (f x) g)"
  by (rule ext) (simp add: io_simps split: prod.splits sum.splits)

text \<open>A run that succeeds, or fails, step by step.\<close>

lemma bind_Inr_iff:
  "bind m f w = (Inr y, w') \<longleftrightarrow> (\<exists>x w1. m w = (Inr x, w1) \<and> f x w1 = (Inr y, w'))"
  by (auto simp: bind_def split: prod.splits sum.splits)

lemma bind_Inl_iff:
  "bind m f w = (Inl e, w') \<longleftrightarrow>
     m w = (Inl e, w') \<or> (\<exists>x w1. m w = (Inr x, w1) \<and> f x w1 = (Inl e, w'))"
  by (auto simp: bind_def split: prod.splits sum.splits)

section \<open>Locations\<close>

text \<open>The walk of the system from a directory (innermost component first): every directory on the
  way has to exist.\<close>

fun os_walk :: "node \<Rightarrow> string list \<Rightarrow> string list \<Rightarrow> loc res" where
  "os_walk t cur [] = Inr (rev cur)"
| "os_walk t cur (c # cs) =
     (case node_at (rev cur) t of
        None \<Rightarrow> Inl (FileNotFoundError (rev cur))
      | Some (File s) \<Rightarrow> Inl (NotADirectoryError (rev cur))
      | Some (Dir es) \<Rightarrow> os_walk t (if c = ''..'' then tl cur else c # cur) cs)"

definition start_dir :: "path \<Rightarrow> world \<Rightarrow> string list" where
  "start_dir p w = (if root p = [] then rev (cwd w) else [])"

definition locate :: "path \<Rightarrow> world \<Rightarrow> loc res" where
  "locate p w = os_walk (tree w) (start_dir p w) (parts p)"

definition stat :: "path \<Rightarrow> world \<Rightarrow> node option" where
  "stat p w = (case locate p w of Inl e \<Rightarrow> None | Inr l \<Rightarrow> node_at l (tree w))"

definition is_file :: "path \<Rightarrow> world \<Rightarrow> bool" where
  "is_file p w = is_regular (stat p w)"

definition is_dir :: "path \<Rightarrow> world \<Rightarrow> bool" where
  "is_dir p w = is_directory (stat p w)"

text \<open>\<open>p.resolve()\<close>: an absolute path without dot components.\<close>

definition path_resolve :: "path \<Rightarrow> world \<Rightarrow> path" where
  "path_resolve p w = \<lparr>root = ''/'', parts = rev (walk (start_dir p w) (parts p))\<rparr>"

text \<open>The place a path denotes from a working directory; \<open>locate\<close> finds nothing else.\<close>

definition place :: "loc \<Rightarrow> path \<Rightarrow> loc" where
  "place c p = rev (walk (if root p = [] then rev c else []) (parts p))"

lemma path_resolve_place: "path_resolve p w = \<lparr>root = ''/'', parts = place (cwd w) p\<rparr>"
  by (simp add: path_resolve_def place_def start_dir_def)

lemma os_walk_walk: "list_all comp_ok cs \<Longrightarrow> os_walk t cur cs = Inr l \<Longrightarrow> l = rev (walk cur cs)"
  by (induction t cur cs rule: os_walk.induct) (auto simp: comp_ok_def split: option.splits node.splits if_splits)

lemma locate_place: "path_wf p \<Longrightarrow> locate p w = Inr l \<Longrightarrow> l = place (cwd w) p"
  using os_walk_walk [of "parts p"] by (auto simp: path_wf_def locate_def place_def start_dir_def)

section \<open>Actions\<close>

definition emit :: "event \<Rightarrow> node \<Rightarrow> world \<Rightarrow> world" where
  "emit ev t w = w\<lparr>tree := t, trace := trace w @ [ev]\<rparr>"

definition read_file :: "path \<Rightarrow> string io" where
  "read_file p w =
     (case locate p w of
        Inl e \<Rightarrow> (Inl e, w)
      | Inr l \<Rightarrow>
          (case node_at l (tree w) of
             None \<Rightarrow> (Inl (FileNotFoundError l), w)
           | Some (Dir es) \<Rightarrow> (Inl (IsADirectoryError l), w)
           | Some (File s) \<Rightarrow> (Inr s, w)))"

text \<open>Create or overwrite the regular file at a location.\<close>

definition put_file :: "(loc \<Rightarrow> event) \<Rightarrow> loc \<Rightarrow> string \<Rightarrow> unit io" where
  "put_file ev l s w =
     (if is_directory (node_at l (tree w)) then (Inl (IsADirectoryError l), w)
      else case put_at l (File s) (tree w) of
             None \<Rightarrow> (Inl (FileNotFoundError l), w)
           | Some t' \<Rightarrow> (Inr (), emit (ev l) t' w))"

definition write_file :: "path \<Rightarrow> string \<Rightarrow> unit io" where
  "write_file p s w =
     (case locate p w of
        Inl e \<Rightarrow> (Inl e, w)
      | Inr l \<Rightarrow> put_file (\<lambda>l. WriteFile l s) l s w)"

definition unlink :: "path \<Rightarrow> unit io" where
  "unlink p w =
     (case locate p w of
        Inl e \<Rightarrow> (Inl e, w)
      | Inr l \<Rightarrow>
          (case node_at l (tree w) of
             None \<Rightarrow> (Inl (FileNotFoundError l), w)
           | Some (Dir es) \<Rightarrow> (Inl (IsADirectoryError l), w)
           | Some (File s) \<Rightarrow> (Inr (), emit (Unlink l) (del_at l (tree w)) w)))"

text \<open>\<open>os.mkdir\<close>, \<open>Path.mkdir(parents, exist_ok=True)\<close> and \<open>os.makedirs\<close>.\<close>

definition os_mkdir :: "path \<Rightarrow> unit io" where
  "os_mkdir p w =
     (case locate p w of
        Inl e \<Rightarrow> (Inl e, w)
      | Inr l \<Rightarrow>
          (if node_at l (tree w) \<noteq> None then (Inl (FileExistsError l), w)
           else case put_at l (Dir []) (tree w) of
                  None \<Rightarrow> (Inl (FileNotFoundError l), w)
                | Some t' \<Rightarrow> (Inr (), emit (MkDir l) t' w)))"

text \<open>The handlers of \<open>Path.mkdir\<close>: the first exception is passed on by \<open>retry\<close>, any other is
  dropped when the directory is there.\<close>

definition mkdir_exist_ok :: "path \<Rightarrow> (exn \<Rightarrow> unit io) \<Rightarrow> unit io" where
  "mkdir_exist_ok p retry =
     catch (os_mkdir p)
       (\<lambda>e. Some (case e of
                     FileNotFoundError l \<Rightarrow> retry e
                   | _ \<Rightarrow> (\<lambda>w. if is_dir p w then ret () w else raise e w)))"

function mkdir_parents :: "path \<Rightarrow> unit io" where
  "mkdir_parents p =
     mkdir_exist_ok p (\<lambda>e.
       if parts p = [] then raise e
       else bind (mkdir_parents (path_parent p)) (\<lambda>_. mkdir_exist_ok p raise))"
  by pat_completeness auto
termination
  by (relation "measure (\<lambda>p. length (parts p))") (auto simp: path_parent_def)

declare mkdir_parents.simps [simp del]

definition makedirs :: "path \<Rightarrow> unit io" where
  "makedirs p w =
     bind (if parts p \<noteq> [] \<and> stat (path_parent p) w = None then mkdir_parents (path_parent p)
           else ret ())
       (\<lambda>_. os_mkdir p) w"

text \<open>\<open>shutil.rmtree(p, ignore_errors=True)\<close>: only a directory goes.\<close>

definition rmtree :: "path \<Rightarrow> unit io" where
  "rmtree p w =
     (case locate p w of
        Inl e \<Rightarrow> (Inr (), w)
      | Inr l \<Rightarrow>
          if is_directory (node_at l (tree w))
          then (Inr (), emit (RmTree l) (del_at l (tree w)) w)
          else (Inr (), w))"

text \<open>\<open>shutil.copy\<close> of a regular file: into a directory when the destination is one.\<close>

definition copy_dest :: "path \<Rightarrow> path \<Rightarrow> world \<Rightarrow> path" where
  "copy_dest src dst w =
     (if is_dir dst w then path_join dst \<lparr>root = [], parts = [path_name src]\<rparr> else dst)"

definition place_file :: "path \<Rightarrow> path \<Rightarrow> string \<Rightarrow> unit io" where
  "place_file src dst s w =
     (case locate src w of
        Inl e \<Rightarrow> (Inl e, w)
      | Inr from \<Rightarrow>
          (case locate dst w of
             Inl e \<Rightarrow> (Inl e, w)
           | Inr l \<Rightarrow> put_file (CopyFile from) l s w))"

definition copy_file :: "path \<Rightarrow> path \<Rightarrow> unit io" where
  "copy_file src dst = bind (read_file src) (\<lambda>s w. place_file src (copy_dest src dst w) s w)"

text \<open>\<open>shutil.copytree\<close>: the source has to be a directory and the destination must not exist.\<close>

definition read_dir :: "path \<Rightarrow> (loc \<times> (string, node) dict) io" where
  "read_dir p w =
     (case locate p w of
        Inl e \<Rightarrow> (Inl e, w)
      | Inr l \<Rightarrow>
          (case node_at l (tree w) of
             None \<Rightarrow> (Inl (FileNotFoundError l), w)
           | Some (File s) \<Rightarrow> (Inl (NotADirectoryError l), w)
           | Some (Dir es) \<Rightarrow> (Inr (l, es), w)))"

definition place_dir :: "loc \<Rightarrow> path \<Rightarrow> node \<Rightarrow> unit io" where
  "place_dir from dst n w =
     (case locate dst w of
        Inl e \<Rightarrow> (Inl e, w)
      | Inr l \<Rightarrow>
          (case put_at l n (tree w) of
             None \<Rightarrow> (Inl (FileNotFoundError l), w)
           | Some t' \<Rightarrow> (Inr (), emit (CopyTree from l) t' w)))"

definition copytree :: "path \<Rightarrow> path \<Rightarrow> (string \<Rightarrow> string list \<Rightarrow> string list) \<Rightarrow> unit io" where
  "copytree src dst ign =
     bind (read_dir src) (\<lambda>(from, es).
     bind (makedirs dst) (\<lambda>_.
     place_dir from dst (copy_node ign (path_str src) (Dir es))))"

text \<open>\<open>p.glob(pattern)\<close> for a pattern of one component: the matching entries of a directory.\<close>

definition glob :: "path \<Rightarrow> string \<Rightarrow> world \<Rightarrow> path list" where
  "glob p pattern w =
     (case stat p w of
        Some (Dir es) \<Rightarrow>
          map (\<lambda>n. p\<lparr>parts := parts p @ [n]\<rparr>) (filter (\<lambda>n. fnmatch n pattern) (dict_keys es))
      | _ \<Rightarrow> [])"

text \<open>\<open>subprocess.run(argv, cwd, input, check=True)\<close>; the result is the standard output.\<close>

definition run_in :: "env \<Rightarrow> loc \<Rightarrow> string list \<Rightarrow> string \<Rightarrow> string io" where
  "run_in e l argv inp w =
     (let (rc, out, err, t') = ext e argv l inp (tree w);
          w' = emit (Run argv l inp) t' w
      in if rc = 0 then (Inr out, w') else (Inl (CalledProcessError (map Str argv) rc out err), w'))"

definition run :: "env \<Rightarrow> path option \<Rightarrow> string list \<Rightarrow> string \<Rightarrow> string io" where
  "run e dir argv inp w =
     (case dir of
        None \<Rightarrow> run_in e (cwd w) argv inp w
      | Some p \<Rightarrow>
          (case locate p w of
             Inl ex \<Rightarrow> (Inl ex, w)
           | Inr l \<Rightarrow>
               (case node_at l (tree w) of
                  None \<Rightarrow> (Inl (FileNotFoundError l), w)
                | Some (File s) \<Rightarrow> (Inl (NotADirectoryError l), w)
                | Some (Dir es) \<Rightarrow> run_in e l argv inp w)))"

text \<open>\<open>with tempfile.TemporaryDirectory() as d\<close>: the directory goes when the block ends, by an
  exception too.\<close>

definition with_tempdir :: "env \<Rightarrow> (path \<Rightarrow> 'a io) \<Rightarrow> 'a io" where
  "with_tempdir e body w =
     (let l = mktemp e (tree w) in
      case put_at l (Dir []) (tree w) of
        None \<Rightarrow> (Inl (FileNotFoundError l), w)
      | Some t1 \<Rightarrow>
          (let (r, w2) = body \<lparr>root = ''/'', parts = l\<rparr> (emit (MkTemp l) t1 w)
           in (r, emit (RmTemp l) (del_at l (tree w2)) w2)))"

lemma run_here:
  "run e None argv inp w =
     (case ext e argv (cwd w) inp (tree w) of (rc, out, err, t') \<Rightarrow>
        (if rc = 0 then Inr out else Inl (CalledProcessError (map Str argv) rc out err),
         emit (Run argv (cwd w) inp) t' w))"
  by (simp add: run_def run_in_def Let_def split: prod.splits)

lemma emit_sel [simp]: "tree (emit ev t w) = t" "cwd (emit ev t w) = cwd w"
  "trace (emit ev t w) = trace w @ [ev]"
  by (simp_all add: emit_def)

end
