(* ===== verification/VendorOps.thy ===== *)
theory VendorOps
  imports World
begin

text \<open>
  The operations of \<open>vendor.py\<close> that run \<open>git\<close> or change files: the import of the upstream
  sources with its patches, the refresh of the patches, cloning, the log of changes and the
  commit.
\<close>

section \<open>Strings of command output\<close>

text \<open>\<open>bytes.strip\<close> knows the ASCII white space only.\<close>

definition bytes_space :: "char \<Rightarrow> bool" where
  "bytes_space c \<longleftrightarrow> code c \<in> {9, 10, 11, 12, 13, 32}"

definition bytes_strip :: "string \<Rightarrow> string" where
  "bytes_strip s = rev (dropWhile bytes_space (rev (dropWhile bytes_space s)))"

text \<open>\<open>str.splitlines\<close>: a carriage return before a newline ends the line with it.\<close>

definition line_end :: "char \<Rightarrow> bool" where
  "line_end c \<longleftrightarrow> code c \<in> {10, 11, 12, 13, 28, 29, 30, 133}"

fun splitlines_acc :: "string \<Rightarrow> string \<Rightarrow> string list" where
  "splitlines_acc acc [] = (if acc = [] then [] else [rev acc])"
| "splitlines_acc acc (c # s) =
     (if line_end c
      then rev acc # splitlines_acc []
             (if code c = 13 \<and> s \<noteq> [] \<and> code (hd s) = 10 then tl s else s)
      else splitlines_acc (c # acc) s)"

definition splitlines :: "string \<Rightarrow> string list" where
  "splitlines s = splitlines_acc [] s"

text \<open>The option each command gets when the program is not verbose.\<close>

definition quiet :: "env \<Rightarrow> string list" where
  "quiet e = (if verbose e then [] else [''-q''])"

section \<open>Git\<close>

definition git_is_clean_workdir :: "env \<Rightarrow> path \<Rightarrow> bool io" where
  "git_is_clean_workdir e git_workdir =
     bind (run e (Some git_workdir) [''git'', ''status'', ''--untracked-files=no'', ''--porcelain''] [])
       (\<lambda>out. ret (bytes_strip out = []))"

definition clone_git_repo :: "env \<Rightarrow> string \<Rightarrow> path \<Rightarrow> string \<Rightarrow> string io" where
  "clone_git_repo e repo_url clone_dir rv =
     bind (run e None ([''git'', ''clone'', ''--no-single-branch''] @ quiet e
                        @ [repo_url, path_str clone_dir]) []) (\<lambda>_.
     bind (run e None ([''git'', ''-C'', path_str clone_dir, ''checkout'', ''--force'', rv]
                        @ quiet e) []) (\<lambda>_.
     bind (run e None [''git'', ''-C'', path_str clone_dir, ''rev-parse'', ''HEAD''] []) (\<lambda>out.
     ret (strip out))))"

definition git_get_short_rev :: "env \<Rightarrow> path \<Rightarrow> string \<Rightarrow> string io" where
  "git_get_short_rev e clone_dir rv =
     bind (run e None [''git'', ''-C'', path_str clone_dir, ''rev-parse'', ''--short'', rv] [])
       (\<lambda>out. ret (strip out))"

text \<open>A command with \<open>Path\<close> objects among its arguments runs with their strings.\<close>

fun arg_str :: "cmd_arg \<Rightarrow> string" where
  "arg_str (Str s) = s"
| "arg_str (PathArg s) = s"

definition run_args :: "env \<Rightarrow> cmd_arg list \<Rightarrow> string \<Rightarrow> string io" where
  "run_args e args inp =
     catch (run e None (map arg_str args) inp)
       (\<lambda>ex. case ex of CalledProcessError argv rc out err \<Rightarrow>
                 Some (raise (CalledProcessError args rc out err)) | _ \<Rightarrow> None)"

text \<open>A failing \<open>git commit\<close> is only a warning.\<close>

definition ignore_failure :: "unit io \<Rightarrow> unit io" where
  "ignore_failure m =
     catch m (\<lambda>e. case e of CalledProcessError argv rc out err \<Rightarrow> Some (ret ()) | _ \<Rightarrow> None)"

definition git_add_commit :: "env \<Rightarrow> path list \<Rightarrow> string \<Rightarrow> unit io" where
  "git_add_commit e paths commit_msg w =
     (if paths = [] then raise AssertionError w
      else
        let base_dir = PathArg (path_str (path_parent (hd paths)));
            abs_paths = map (\<lambda>p. PathArg (path_str (path_resolve p w))) paths
        in bind (run_args e ([Str ''git'', Str ''-C'', base_dir, Str ''add''] @ abs_paths) []) (\<lambda>_.
             ignore_failure
               (bind (run_args e [Str ''git'', Str ''-C'', base_dir, Str ''commit'', Str ''-s'', Str ''-F'', Str ''-'']
                        commit_msg)
                  (\<lambda>_. ret ()))) w)"

text \<open>\<open>produce_shortlog\<close>: when the command fails, no line.\<close>

definition produce_shortlog ::
  "env \<Rightarrow> path \<Rightarrow> mapping1 list option \<Rightarrow> string \<Rightarrow> string \<Rightarrow> string list io"
where
  "produce_shortlog e clone_dir mapping old_rev new_rev =
     (let subdirs = (case mapping of
                       None \<Rightarrow> [''.'']
                     | Some items \<Rightarrow> map (\<lambda>m. path_str (from_path m)) items);
          cmd = [''git'', ''-C'', path_str clone_dir, ''log'', ''--pretty=format:%s (%aN)'',
                 ''--no-merges'', old_rev @ ''..'' @ new_rev] @ subdirs
      in catch (bind (run e (Some clone_dir) cmd []) (\<lambda>out. ret (splitlines out)))
           (\<lambda>ex. case ex of CalledProcessError argv rc out err \<Rightarrow> Some (ret []) | _ \<Rightarrow> None))"

section \<open>Importing\<close>

definition apply_patch :: "env \<Rightarrow> path \<Rightarrow> path \<Rightarrow> unit io" where
  "apply_patch e basedir patchfile =
     bind (run e None ([''git'', ''apply'', ''--directory'', path_str basedir, ''-p1'',
                         path_str patchfile] @ (if verbose e then [''--verbose''] else [])) [])
       (\<lambda>_. ret ())"

text \<open>The patches of a directory, in the order of paths.\<close>

definition sorted_patches :: "path \<Rightarrow> world \<Rightarrow> path list" where
  "sorted_patches dir w = sort (glob dir ''*.patch'' w)"

text \<open>One entry of the mapping: copy a file or a directory, then apply its patches.\<close>

definition copy_sources :: "path \<Rightarrow> path \<Rightarrow> path \<Rightarrow> string list \<Rightarrow> unit io" where
  "copy_sources upstream_path from to exclude_files w =
     (if is_file from w then copy_file from to w
      else copytree from to
             (ignore_patterns (abs_str (cwd w)) (path_str upstream_path) exclude_files) w)"

definition apply_patches :: "env \<Rightarrow> path option \<Rightarrow> path option \<Rightarrow> path \<Rightarrow> unit io" where
  "apply_patches e own patch_dir to w =
     (case own of
        None \<Rightarrow> ret () w
      | Some own_dir \<Rightarrow>
          (case patch_dir of
             None \<Rightarrow> raise TypeError w
           | Some dir \<Rightarrow> for_each (sorted_patches (path_join dir own_dir) w) (apply_patch e to) w))"

definition Mapping1_import_from_upstream ::
  "env \<Rightarrow> mapping1 \<Rightarrow> path \<Rightarrow> path \<Rightarrow> string list \<Rightarrow> path option \<Rightarrow> unit io"
where
  "Mapping1_import_from_upstream e m upstream_path target_path exclude_files patch_dir =
     (let from = path_join upstream_path (from_path m);
          to = path_join target_path (to_path m)
      in bind (mkdir_parents (path_parent to)) (\<lambda>_.
         bind (copy_sources upstream_path from to exclude_files) (\<lambda>_.
         apply_patches e (m_patch_dir m) patch_dir to)))"

definition mapping_items :: "desc \<Rightarrow> mapping1 list" where
  "mapping_items d =
     (case d_mapping d of
        Some items \<Rightarrow> items
      | None \<Rightarrow> [Mapping1_make_default (d_patch_dir d \<noteq> None)])"

definition import_from_upstream :: "env \<Rightarrow> desc \<Rightarrow> path \<Rightarrow> unit io" where
  "import_from_upstream e d upstream_path =
     bind (rmtree (d_target_dir d)) (\<lambda>_.
     for_each (mapping_items d) (\<lambda>m.
       Mapping1_import_from_upstream e m upstream_path (d_target_dir d) (d_exclude d) (d_patch_dir d)))"

section \<open>Refreshing the patches\<close>

definition export_patches :: "env \<Rightarrow> string \<Rightarrow> path \<Rightarrow> string \<Rightarrow> string \<Rightarrow> unit io" where
  "export_patches e patchrepo_clone_url target_patch_dir upstream_rev patched_rev =
     with_tempdir e (\<lambda>clone_dir.
       bind (clone_git_repo e patchrepo_clone_url clone_dir patched_rev) (\<lambda>_ w.
       bind (run e (Some clone_dir)
               ([''git'', ''format-patch'', ''--no-signature'', ''--no-stat'', ''-o'',
                 path_str (path_resolve target_patch_dir w),
                 ''origin/'' @ upstream_rev @ ''..'' @ ''origin/'' @ patched_rev] @ quiet e) [])
         (\<lambda>_. ret ()) w))"

definition refresh_patches :: "env \<Rightarrow> desc \<Rightarrow> unit io" where
  "refresh_patches e d =
     (case d_patch_repo d of
        None \<Rightarrow> raise (SystemExit 1)
      | Some repo \<Rightarrow>
          (case d_patch_dir d of
             None \<Rightarrow> raise AttributeError
           | Some dir \<Rightarrow>
               (\<lambda>w. bind (for_each (glob dir ''*.patch'' w) unlink) (\<lambda>_.
                    export_patches e (pr_url repo) dir (rev_base repo) (rev_patched repo)) w)))"

end
