(* ===== verification/WorldFacts.thy ===== *)
theory WorldFacts
  imports VendorOps
begin

text \<open>
  Locations of paths without dot components, and what the actions do to the file system when
  nothing stands in their way.
\<close>

section \<open>Walking\<close>

lemma dir_not_None: "is_directory n \<Longrightarrow> n \<noteq> None"
  by (cases n) auto

lemma node_at_parent_dir: "node_at (p @ [c]) t = Some n \<Longrightarrow> is_directory (node_at p t)"
  by (auto simp: node_at_append is_directory_def split: option.splits node.splits)

lemma is_directory_prefix:
  assumes "is_directory (node_at q t)" "prefix p q"
  shows "is_directory (node_at p t)"
proof -
  obtain r where q: "q = p @ r" using assms(2) by (auto simp: prefix_def)
  show ?thesis
  proof (cases r)
    case (Cons c r')
    then show ?thesis using assms(1) q
      by (auto simp: node_at_append is_directory_def split: option.splits node.splits)
  qed (use assms(1) q in simp)
qed

lemma node_at_strict_prefix:
  assumes "node_at q t \<noteq> None" "strict_prefix p q"
  shows "is_directory (node_at p t)"
proof -
  obtain c r where "q = p @ c # r" using assms(2) by (auto elim: strict_prefixE')
  then show ?thesis using assms(1)
    by (auto simp: node_at_append is_directory_def split: option.splits node.splits)
qed

text \<open>A walk without dot components goes through when the directories on the way are there.\<close>

lemma os_walk_clean:
  assumes "list_all clean cs"
  shows "os_walk t st cs = Inr l \<longleftrightarrow>
    l = rev st @ cs \<and> (cs = [] \<or> is_directory (node_at (rev st @ butlast cs) t))"
  using assms
proof (induction cs arbitrary: st)
  case (Cons c cs)
  have c: "c \<noteq> ''..''" using Cons.prems by (auto simp: cleanD)
  have step: "os_walk t st (c # cs) = Inr l \<longleftrightarrow>
      is_directory (node_at (rev st) t) \<and> os_walk t (c # st) cs = Inr l"
    using c by (auto simp: is_directory_def split: option.splits node.splits)
  show ?case
  proof (cases "cs = []")
    case False
    have "is_directory (node_at (rev st @ c # butlast cs) t) \<Longrightarrow> is_directory (node_at (rev st) t)"
      by (erule is_directory_prefix) simp
    then show ?thesis unfolding step using False Cons by auto
  qed (unfold step, auto)
qed auto

definition loc_of :: "path \<Rightarrow> world \<Rightarrow> loc" where
  "loc_of p w = rev (start_dir p w) @ parts p"

definition clean_path :: "path \<Rightarrow> bool" where
  "clean_path p \<longleftrightarrow> list_all clean (parts p)"

lemma locate_clean:
  "clean_path p \<Longrightarrow> parts p \<noteq> [] \<Longrightarrow> is_directory (node_at (butlast (loc_of p w)) (tree w)) \<Longrightarrow>
     locate p w = Inr (loc_of p w)"
  by (simp add: locate_def loc_of_def clean_path_def os_walk_clean butlast_append)

lemma locate_clean_exists:
  assumes "clean_path p" "node_at (loc_of p w) (tree w) \<noteq> None"
  shows "locate p w = Inr (loc_of p w)"
proof (cases "parts p = []")
  case False
  then have "strict_prefix (butlast (loc_of p w)) (loc_of p w)"
    by (cases "loc_of p w" rule: rev_cases) (auto simp: loc_of_def strict_prefix_def)
  then show ?thesis using locate_clean [OF assms(1) False] node_at_strict_prefix [OF assms(2)] by blast
qed (simp add: locate_def loc_of_def)

lemma loc_of_parent: "parts p \<noteq> [] \<Longrightarrow> loc_of (path_parent p) w = butlast (loc_of p w)"
  by (simp add: loc_of_def path_parent_def start_dir_def butlast_append)

lemma clean_path_parent: "clean_path p \<Longrightarrow> clean_path (path_parent p)"
  by (simp add: clean_path_def path_parent_def list_all_butlast)

lemma loc_of_cwd: "cwd w' = cwd w \<Longrightarrow> loc_of p w' = loc_of p w"
  by (simp add: loc_of_def start_dir_def)

lemma stat_clean:
  assumes "clean_path p"
  shows "node_at (loc_of p w) (tree w) \<noteq> None \<Longrightarrow> stat p w = node_at (loc_of p w) (tree w)"
  using locate_clean_exists [OF assms] by (simp add: stat_def)

section \<open>Making directories\<close>

text \<open>What making directories leaves behind: the location is a directory, and nothing changed but
  that directories were added on the way to it.\<close>

definition extended :: "loc \<Rightarrow> world \<Rightarrow> world \<Rightarrow> bool" where
  "extended l w w' \<longleftrightarrow> cwd w' = cwd w
     \<and> (\<forall>q. \<not> prefix q l \<longrightarrow> node_at q (tree w') = node_at q (tree w))
     \<and> (\<forall>q. node_at q (tree w) \<noteq> None \<longrightarrow> is_directory (node_at q (tree w)) \<longrightarrow>
          is_directory (node_at q (tree w')))"

lemma os_mkdir_new:
  assumes "clean_path p" "parts p \<noteq> []" "node_at (loc_of p w) (tree w) = None"
    and "is_directory (node_at (butlast (loc_of p w)) (tree w))"
  shows "\<exists>t'. put_at (loc_of p w) (Dir []) (tree w) = Some t' \<and>
    os_mkdir p w = (Inr (), emit (MkDir (loc_of p w)) t' w)"
proof -
  have "loc_of p w \<noteq> []" using assms(2) by (simp add: loc_of_def)
  then show ?thesis
    using assms locate_clean [OF assms(1,2,4)] fs.put_ok [OF _ assms(4), of "Dir []"]
    by (auto simp: os_mkdir_def)
qed

lemma put_new_extended:
  assumes "put_at l (Dir []) (tree w) = Some t'" "node_at l (tree w) = None"
  shows "extended l w (emit ev t' w) \<and> is_directory (node_at l t')"
proof -
  have 1: "node_at q t' = node_at q (tree w)" if "\<not> prefix q l" for q
  proof (cases "prefix l q")
    case True
    then obtain r where q: "q = l @ r" by (auto simp: prefix_def)
    then have "r \<noteq> []" using that by auto
    with q show ?thesis using fs.get_put [OF assms(1)] assms(2) by (cases r) (auto simp: node_at_append)
  qed (use that fs.get_put_other [OF assms(1)] in blast)
  have 2: "is_directory (node_at q t')" if "prefix q l" for q
    using that fs.isdir_put [OF assms(1)] fs.get_put_same [OF assms(1)] by (cases "q = l") auto
  have "is_directory (node_at q t')" if "is_directory (node_at q (tree w))" for q
    using 1 [of q] 2 [of q] that by (cases "prefix q l") auto
  then show ?thesis using 1 2 by (simp add: extended_def)
qed

lemma mkdir_exists:
  assumes "clean_path p" "is_directory (node_at (loc_of p w) (tree w))"
  shows "mkdir_exist_ok p retry w = (Inr (), w)"
proof -
  have ex: "node_at (loc_of p w) (tree w) \<noteq> None" using assms(2) by (rule dir_not_None)
  then have "os_mkdir p w = (Inl (FileExistsError (loc_of p w)), w)"
    using locate_clean_exists [OF assms(1)] by (auto simp: os_mkdir_def)
  moreover have "is_dir p w" using stat_clean [OF assms(1) ex] assms(2) by (simp add: is_dir_def)
  ultimately show ?thesis by (simp add: mkdir_exist_ok_def catch_def ret_def)
qed

lemma mkdir_new:
  assumes "clean_path p" "parts p \<noteq> []" "node_at (loc_of p w) (tree w) = None"
    and "is_directory (node_at (butlast (loc_of p w)) (tree w))"
  shows "\<exists>w'. mkdir_exist_ok p retry w = (Inr (), w') \<and> extended (loc_of p w) w w'
    \<and> is_directory (node_at (loc_of p w) (tree w'))"
  using os_mkdir_new [OF assms] put_new_extended [OF _ assms(3)]
  by (fastforce simp: mkdir_exist_ok_def catch_def)

lemma mkdir_retry:
  "os_mkdir p w = (Inl (FileNotFoundError f), w) \<Longrightarrow>
     mkdir_exist_ok p retry w = retry (FileNotFoundError f) w"
  by (simp add: mkdir_exist_ok_def catch_def)

text \<open>Every location on the way is free or a directory.\<close>

definition way_free :: "loc \<Rightarrow> world \<Rightarrow> bool" where
  "way_free l w \<longleftrightarrow> (\<forall>q. prefix q l \<longrightarrow> node_at q (tree w) = None \<or> is_directory (node_at q (tree w)))"

lemma way_free_butlast: "way_free l w \<Longrightarrow> way_free (butlast l) w"
  by (cases l rule: rev_cases) (auto simp: way_free_def)

lemma extended_trans:
  "extended l w w1 \<Longrightarrow> extended (l @ m) w1 w2 \<Longrightarrow> extended (l @ m) w w2"
  unfolding extended_def by (metis prefix_append is_directory_iff option.discI)

lemma extended_refl [simp]: "extended l w w"
  by (simp add: extended_def)

lemma os_walk_missing:
  "list_all clean cs \<Longrightarrow> (\<forall>q. prefix q (rev st @ cs) \<longrightarrow> node_at q t = None \<or> is_directory (node_at q t))
   \<Longrightarrow> os_walk t st cs = Inl x \<Longrightarrow> \<exists>f. x = FileNotFoundError f"
proof (induction cs arbitrary: st)
  case (Cons c cs)
  have c: "c \<noteq> ''..''" "list_all clean cs" using Cons.prems(1) by (auto simp: cleanD)
  have "prefix (rev st) (rev st @ c # cs)" by simp
  then have d: "node_at (rev st) t = None \<or> is_directory (node_at (rev st) t)"
    using Cons.prems(2) by blast
  have "os_walk t st (c # cs) =
      (if is_directory (node_at (rev st) t) then os_walk t (c # st) cs else Inl (FileNotFoundError (rev st)))"
    using c(1) d by (auto simp: is_directory_def split: option.splits node.splits)
  then show ?case using Cons.IH [OF c(2), of "c # st"] Cons.prems(2,3) by (auto split: if_splits)
qed simp

lemma locate_missing:
  "clean_path p \<Longrightarrow> way_free (loc_of p w) w \<Longrightarrow> locate p w = Inl x \<Longrightarrow> \<exists>f. x = FileNotFoundError f"
  unfolding locate_def clean_path_def way_free_def loc_of_def by (rule os_walk_missing)

text \<open>The parent had to be made: then the directory itself, at the second try.\<close>

lemma mkdir_parents_deep:
  fixes p :: path and w w1 :: world
  defines "l \<equiv> loc_of p w"
  assumes "clean_path p" "parts p \<noteq> []" "way_free l w" "node_at l (tree w) = None"
    and "node_at (butlast l) (tree w) = None"
    and "mkdir_parents (path_parent p) w = (Inr (), w1)" "extended (butlast l) w w1"
    and "is_directory (node_at (butlast l) (tree w1))"
  shows "\<exists>w'. mkdir_parents p w = (Inr (), w') \<and> extended l w w' \<and> is_directory (node_at l (tree w'))"
proof -
  have l1: "loc_of p w1 = l" unfolding l_def using assms(8) by (intro loc_of_cwd) (simp add: extended_def)
  have ne: "l = butlast l @ [last l]"
    using assms(3) by (intro append_butlast_last_id [symmetric]) (simp add: l_def loc_of_def)
  have "\<not> prefix l (butlast l)"
  proof
    assume "prefix l (butlast l)"
    then have "length l \<le> length (butlast l)" by (rule prefix_length_le)
    then show False using assms(3) by (cases "parts p") (auto simp: l_def loc_of_def)
  qed
  then have "node_at l (tree w1) = None" using assms(5,8) by (simp add: extended_def)
  then obtain w2 where w2: "mkdir_exist_ok p raise w1 = (Inr (), w2)" "extended l w1 w2"
    "is_directory (node_at l (tree w2))"
    using mkdir_new [OF assms(2,3), of w1 raise] assms(9) unfolding l1 by blast
  have "locate p w \<noteq> Inr q" for q
    using assms(2,3,6)
    by (auto simp: locate_def os_walk_clean clean_path_def l_def loc_of_def butlast_append)
  then obtain f where "locate p w = Inl (FileNotFoundError f)"
    using locate_missing [OF assms(2) assms(4) [unfolded l_def]] by (metis sum.exhaust)
  then have "os_mkdir p w = (Inl (FileNotFoundError f), w)" by (simp add: os_mkdir_def)
  from mkdir_retry [OF this] have "mkdir_parents p w = (Inr (), w2)"
    using assms(3,7) w2(1) by (subst mkdir_parents.simps) (simp add: bind_def)
  then show ?thesis using w2 extended_trans [of "butlast l" w w1 "[last l]" w2] assms(8) ne by auto
qed

lemma mkdir_parents_ok:
  assumes "clean_path p" "way_free (loc_of p w) w" "is_directory (node_at (rev (start_dir p w)) (tree w))"
  shows "\<exists>w'. mkdir_parents p w = (Inr (), w') \<and> extended (loc_of p w) w w'
    \<and> is_directory (node_at (loc_of p w) (tree w'))"
  using assms
proof (induction p arbitrary: w rule: mkdir_parents.induct)
  case (1 p)
  let ?l = "loc_of p w"
  consider (there) "is_directory (node_at ?l (tree w))"
    | (new) "node_at ?l (tree w) = None" "parts p \<noteq> []" "is_directory (node_at (butlast ?l) (tree w))"
    | (deep) "node_at ?l (tree w) = None" "parts p \<noteq> []" "node_at (butlast ?l) (tree w) = None"
  proof -
    have a: "node_at ?l (tree w) = None \<or> is_directory (node_at ?l (tree w))"
      using 1(3) by (simp add: way_free_def)
    have b: "node_at (butlast ?l) (tree w) = None \<or> is_directory (node_at (butlast ?l) (tree w))"
      using way_free_butlast [OF 1(3)] by (simp add: way_free_def)
    have c: "parts p = [] \<Longrightarrow> is_directory (node_at ?l (tree w))"
      using 1(4) by (simp add: loc_of_def)
    from a b c show thesis using there new deep by blast
  qed
  then show ?case
  proof cases
    case there
    then show ?thesis using mkdir_exists [OF 1(2) there]
      by (subst mkdir_parents.simps) simp
  next
    case new
    then show ?thesis using mkdir_new [OF 1(2) new(2,1,3)]
      by (subst mkdir_parents.simps) blast
  next
    case deep
    let ?q = "path_parent p"
    have lq: "loc_of ?q w = butlast ?l" using loc_of_parent [OF deep(2)] .
    have st: "start_dir ?q w = start_dir p w" by (simp add: start_dir_def path_parent_def)
    obtain w1 where w1: "mkdir_parents ?q w = (Inr (), w1)" "extended (butlast ?l) w w1"
      "is_directory (node_at (butlast ?l) (tree w1))"
      using 1(1) [OF deep(2) clean_path_parent [OF 1(2)], of w] 1(3,4) way_free_butlast [OF 1(3)]
      unfolding lq st by blast
    then show ?thesis
      using mkdir_parents_deep [OF 1(2) deep(2) 1(3) deep(1,3) w1] by blast
  qed
qed

section \<open>Removing and copying directories\<close>

lemma rmtree_clean:
  assumes "clean_path p"
  shows "rmtree p w = (Inr (),
    if is_directory (node_at (loc_of p w) (tree w))
    then emit (RmTree (loc_of p w)) (del_at (loc_of p w) (tree w)) w else w)"
proof (cases "is_directory (node_at (loc_of p w) (tree w))")
  case True
  then show ?thesis
    using locate_clean_exists [OF assms dir_not_None [OF True]] by (simp add: rmtree_def)
next
  case False
  have "l = loc_of p w" if "locate p w = Inr l" for l
    using that assms by (simp add: locate_def os_walk_clean clean_path_def loc_of_def)
  with False show ?thesis by (auto simp: rmtree_def split: sum.splits)
qed

lemma copytree_new:
  assumes "clean_path src" "node_at (loc_of src w) (tree w) = Some (Dir es)"
    and "clean_path dst" "parts dst \<noteq> []" "node_at (loc_of dst w) (tree w) = None"
    and "is_directory (node_at (butlast (loc_of dst w)) (tree w))"
  shows "\<exists>w'. copytree src dst ign w = (Inr (), w') \<and> cwd w' = cwd w
    \<and> node_at (loc_of dst w) (tree w') = Some (copy_node ign (path_str src) (Dir es))
    \<and> (\<forall>q. \<not> prefix (loc_of dst w) q \<longrightarrow> \<not> prefix q (loc_of dst w) \<longrightarrow> node_at q (tree w') = node_at q (tree w))
    \<and> (\<forall>q. strict_prefix q (loc_of dst w) \<longrightarrow> is_directory (node_at q (tree w')))"
proof -
  let ?l = "loc_of dst w"
  have ne: "?l \<noteq> []" using assms(4) by (simp add: loc_of_def)
  have rd: "read_dir src w = (Inr (loc_of src w, es), w)"
    using locate_clean_exists [OF assms(1), of w] assms(2) by (simp add: read_dir_def)
  obtain t1 where t1: "put_at ?l (Dir []) (tree w) = Some t1"
    "os_mkdir dst w = (Inr (), emit (MkDir ?l) t1 w)"
    using os_mkdir_new [OF assms(3-6)] by blast
  have "stat (path_parent dst) w \<noteq> None"
    using stat_clean [OF clean_path_parent [OF assms(3)], of w] dir_not_None [OF assms(6)]
    by (simp add: loc_of_parent [OF assms(4)])
  then obtain n where "stat (path_parent dst) w = Some n" by blast
  then have mk: "makedirs dst w = (Inr (), emit (MkDir ?l) t1 w)"
    using t1(2) by (simp add: makedirs_def)
  let ?w1 = "emit (MkDir ?l) t1 w"
  have l1: "loc_of dst ?w1 = ?l" by (rule loc_of_cwd) simp
  have "node_at ?l t1 = Some (Dir [])" by (rule fs.get_put_same [OF t1(1)])
  then have loc: "locate dst ?w1 = Inr ?l"
    using locate_clean_exists [OF assms(3), of ?w1] unfolding l1 by simp
  have "is_directory (node_at (butlast ?l) t1)"
    using fs.isdir_put [OF t1(1), of "butlast ?l"] ne
    by (cases ?l rule: rev_cases) (auto simp: strict_prefix_def)
  then obtain t2 where t2: "put_at ?l (copy_node ign (path_str src) (Dir es)) t1 = Some t2"
    using fs.put_ok [OF ne] by blast
  have "copytree src dst ign w = (Inr (), emit (CopyTree (loc_of src w) ?l) t2 ?w1)"
    using rd mk loc t2 by (simp add: copytree_def bind_def place_dir_def)
  then show ?thesis
    using fs.get_put_same [OF t2] fs.get_put_other [OF t2] fs.get_put_other [OF t1(1)]
      fs.isdir_put [OF t2] by auto
qed

lemma copy_file_new:
  assumes "clean_path src" "node_at (loc_of src w) (tree w) = Some (File s)"
    and "clean_path dst" "parts dst \<noteq> []" "node_at (loc_of dst w) (tree w) = None"
    and "is_directory (node_at (butlast (loc_of dst w)) (tree w))"
  shows "\<exists>w'. copy_file src dst w = (Inr (), w') \<and> cwd w' = cwd w
    \<and> node_at (loc_of dst w) (tree w') = Some (File s)
    \<and> (\<forall>q. \<not> prefix (loc_of dst w) q \<longrightarrow> \<not> prefix q (loc_of dst w) \<longrightarrow> node_at q (tree w') = node_at q (tree w))
    \<and> (\<forall>q. strict_prefix q (loc_of dst w) \<longrightarrow> is_directory (node_at q (tree w')))"
proof -
  let ?l = "loc_of dst w"
  have ne: "?l \<noteq> []" using assms(4) by (simp add: loc_of_def)
  have src: "locate src w = Inr (loc_of src w)"
    using locate_clean_exists [OF assms(1), of w] assms(2) by simp
  have dst: "locate dst w = Inr ?l" by (rule locate_clean [OF assms(3,4,6)])
  have "copy_dest src dst w = dst"
    using dst assms(5) by (simp add: copy_dest_def is_dir_def stat_def)
  moreover obtain t' where t': "put_at ?l (File s) (tree w) = Some t'"
    using fs.put_ok [OF ne assms(6)] by blast
  ultimately have "copy_file src dst w = (Inr (), emit (CopyFile (loc_of src w) ?l) t' w)"
    using src dst assms(2,5)
    by (simp add: copy_file_def read_file_def bind_def place_file_def put_file_def)
  then show ?thesis
    using fs.get_put_same [OF t'] fs.get_put_other [OF t'] fs.isdir_put [OF t'] by auto
qed

end
