(* ===== verification/Scan.thy ===== *)
theory Scan
  imports PyText
begin

text \<open>
  Scanning a string with a regular expression, as \<open>re.sub\<close> and \<open>re.finditer\<close> do: from left to
  right, taking the match at the current position if there is one and passing over one
  character otherwise. The expression is a matching function: given whether the position is
  the start of the string, and the rest of the string, it returns what it matched and what
  is left. None of the expressions of the sources matches the empty string.
\<close>

type_synonym 'a matcher = "bool \<Rightarrow> string \<Rightarrow> ('a \<times> string) option"

function scan :: "'a matcher \<Rightarrow> bool \<Rightarrow> string \<Rightarrow> ('a + char) list" where
  "scan m st s =
     (case m st s of
        Some (x, rest) \<Rightarrow> if length rest < length s then Inl x # scan m False rest else []
      | None \<Rightarrow> (case s of [] \<Rightarrow> [] | c # cs \<Rightarrow> Inr c # scan m False cs))"
  by pat_completeness auto
termination
  by (relation "measure (\<lambda>(m, st, s). length s)") auto

declare scan.simps [simp del]

text \<open>\<open>re.sub\<close> with the replacement text of each match, and \<open>re.finditer\<close>.\<close>

definition re_sub :: "('a \<Rightarrow> string) \<Rightarrow> 'a matcher \<Rightarrow> string \<Rightarrow> string" where
  "re_sub repl m s = concat (map (\<lambda>i. case i of Inl x \<Rightarrow> repl x | Inr c \<Rightarrow> [c]) (scan m True s))"

definition finditer :: "'a matcher \<Rightarrow> string \<Rightarrow> 'a list" where
  "finditer m s = concat (map (\<lambda>i. case i of Inl x \<Rightarrow> [x] | Inr c \<Rightarrow> []) (scan m True s))"

text \<open>The contract of a matching function: a match is a nonempty piece of the string.\<close>

locale matcher =
  fixes m :: "'a matcher"
  assumes consumes: "m st s = Some (x, rest) \<Longrightarrow> \<exists>w. w \<noteq> [] \<and> s = w @ rest"
begin

lemma scan_Nil: "scan m st [] = []"
  using consumes [of st "[]"] by (subst scan.simps) (auto split: option.splits)

lemma scan_match: "m st s = Some (x, rest) \<Longrightarrow> scan m st s = Inl x # scan m False rest"
  using consumes [of st s x rest] by (subst scan.simps) auto

lemma scan_skip: "m st (c # s) = None \<Longrightarrow> scan m st (c # s) = Inr c # scan m False s"
  by (subst scan.simps) simp

lemma scan_skip_all:
  "(\<forall>a b. s = a @ b \<longrightarrow> b \<noteq> [] \<longrightarrow> m (st \<and> a = []) (b @ t) = None) \<Longrightarrow>
   scan m st (s @ t) = map Inr s @ scan m (st \<and> s = []) t"
proof (induction s arbitrary: st)
  case (Cons c s)
  have "m st (c # s @ t) = None" using Cons.prems [rule_format, of "[]" "c # s"] by simp
  moreover have "\<forall>a b. s = a @ b \<longrightarrow> b \<noteq> [] \<longrightarrow> m (False \<and> a = []) (b @ t) = None"
    using Cons.prems [rule_format, of "c # a" for a] by simp
  ultimately show ?case using Cons.IH [of False] by (simp add: scan_skip)
qed simp

text \<open>The pieces of a scan put the string back together.\<close>

lemma scan_pieces:
  "\<exists>ps. s = concat (map snd ps) \<and> scan m st s = map fst ps \<and>
     (\<forall>(i, w) \<in> set ps. case i of Inr c \<Rightarrow> w = [c]
        | Inl x \<Rightarrow> w \<noteq> [] \<and> (\<exists>b rest. m b (w @ rest) = Some (x, rest)))"
proof (induction s arbitrary: st rule: measure_induct_rule [of length])
  case (less s)
  show ?case
  proof (cases "m st s")
    case None
    show ?thesis
    proof (cases s)
      case Nil
      then show ?thesis by (intro exI [of _ "[]"]) (simp add: scan_Nil)
    next
      case (Cons c cs)
      obtain ps where ps: "cs = concat (map snd ps)" "scan m False cs = map fst ps"
        "\<forall>(i, w) \<in> set ps. case i of Inr c \<Rightarrow> w = [c]
           | Inl x \<Rightarrow> w \<noteq> [] \<and> (\<exists>b rest. m b (w @ rest) = Some (x, rest))"
        using less [of cs False] Cons by auto
      then show ?thesis using None Cons
        by (intro exI [of _ "(Inr c, [c]) # ps"]) (auto simp: scan_skip)
    qed
  next
    case (Some p)
    obtain x rest where p: "p = (x, rest)" by (cases p)
    obtain w where w: "w \<noteq> []" "s = w @ rest" using consumes Some p by blast
    obtain ps where ps: "rest = concat (map snd ps)" "scan m False rest = map fst ps"
      "\<forall>(i, w) \<in> set ps. case i of Inr c \<Rightarrow> w = [c]
         | Inl x \<Rightarrow> w \<noteq> [] \<and> (\<exists>b rest. m b (w @ rest) = Some (x, rest))"
      using less [of rest False] w by auto
    have "m st (w @ rest) = Some (x, rest)" using Some p w by simp
    then show ?thesis using Some p w ps
      by (intro exI [of _ "(Inl x, w) # ps"]) (auto simp: scan_match)
  qed
qed

end

end
