(* ===== verification/GitHubRefs.thy ===== *)
theory GitHubRefs
  imports Scan PyNum PyRuntime
begin

text \<open>
  The GitHub functions of \<open>vendor.py\<close>: \<open>github_parse_url\<close> and \<open>github_qualify_references\<close>,
  their regular expressions written as matching functions, the replacement template of
  \<open>re.sub\<close>, and the repository's own tests of both.
\<close>

section \<open>Repository URLs\<close>

text \<open>The class \<open>[a-zA-Z\d-]\<close>.\<close>

definition is_slug :: "char \<Rightarrow> bool" where
  "is_slug c \<longleftrightarrow> is_ascii_letter c \<or> is_digit c \<or> c = CHR ''-''"

text \<open>\<open>(?:\.git)?$\<close>: the end of the string, or a newline that ends it.\<close>

definition url_end :: "string \<Rightarrow> bool" where
  "url_end s \<longleftrightarrow> s \<in> {[], [newline], ''.git'', ''.git'' @ [newline]}"

text \<open>\<open>(?:@github\.com\:|\/github\.com\/)\<close>.\<close>

definition host_ssh :: string where
  "host_ssh = ''@github.com:''"

definition host_https :: string where
  "host_https = ''/github.com/''"

definition url_host :: "string \<Rightarrow> string option" where
  "url_host s =
     (case strip_prefix host_ssh s of Some r \<Rightarrow> Some r | None \<Rightarrow> strip_prefix host_https s)"

text \<open>The expression at one position. Both groups stop at the first character outside the
  class, and no shorter group can match: what follows a group is outside the class.\<close>

definition url_match :: "string \<Rightarrow> (string \<times> string) option" where
  "url_match s =
     (case url_host s of
        None \<Rightarrow> None
      | Some r \<Rightarrow>
          let org = takeWhile is_slug r; r1 = dropWhile is_slug r in
          (case strip_prefix ''/'' r1 of
             None \<Rightarrow> None
           | Some r2 \<Rightarrow>
               let name = takeWhile is_slug r2; r3 = dropWhile is_slug r2 in
               if org \<noteq> [] \<and> name \<noteq> [] \<and> url_end r3 then Some (org, name) else None))"

text \<open>\<open>re.search\<close>: the first position where the expression matches.\<close>

fun github_parse_url :: "string \<Rightarrow> (string \<times> string) option" where
  "github_parse_url s =
     (case url_match s of
        Some m \<Rightarrow> Some m
      | None \<Rightarrow> (case s of [] \<Rightarrow> None | _ # cs \<Rightarrow> github_parse_url cs))"

declare github_parse_url.simps [simp del]

section \<open>References to issues and pull requests\<close>

text \<open>\<open>(?:#|[gG][hH]-)\<close>.\<close>

definition gh_forms :: "string list" where
  "gh_forms = [''gh-'', ''gH-'', ''Gh-'', ''GH-'']"

definition ref_prefix :: "string \<Rightarrow> (string \<times> string) option" where
  "ref_prefix s =
     (case s of
        [] \<Rightarrow> None
      | c # r \<Rightarrow>
          if c = CHR ''#'' then Some ([c], r)
          else if take 3 s \<in> set gh_forms then Some (take 3 s, drop 3 s)
          else None)"

text \<open>\<open>(\d+)\b\<close>: all digits that follow, if no word character comes after them.\<close>

definition ref_number :: "string \<Rightarrow> (string \<times> string) option" where
  "ref_number s =
     (let ds = takeWhile is_digit s; r = dropWhile is_digit s in
      if ds = [] \<or> (r \<noteq> [] \<and> is_word (hd r)) then None else Some (ds, r))"

definition ref_body :: "string \<Rightarrow> ((string \<times> string) \<times> string) option" where
  "ref_body s =
     (case ref_prefix s of
        None \<Rightarrow> None
      | Some (p, r) \<Rightarrow> (case ref_number r of None \<Rightarrow> None | Some (ds, r') \<Rightarrow> Some ((p, ds), r')))"

text \<open>A match: the first group (empty, or the character before), the prefix, the digits.\<close>

type_synonym ref = "string \<times> string \<times> string"

definition ref_match :: "ref matcher" where
  "ref_match st s =
     (case (if st then ref_body s else None) of
        Some ((p, ds), r) \<Rightarrow> Some (([], p, ds), r)
      | None \<Rightarrow>
          (case s of
             [] \<Rightarrow> None
           | c # cs \<Rightarrow>
               if is_word c then None
               else (case ref_body cs of
                       None \<Rightarrow> None
                     | Some ((p, ds), r) \<Rightarrow> Some (([c], p, ds), r))))"

section \<open>Replacement templates\<close>

text \<open>A parsed template: characters and references to the groups of the match.\<close>

datatype tpl = Lit char | Grp nat

definition backslash :: char where
  "backslash = CHR 0x5C"

definition is_oct :: "char \<Rightarrow> bool" where
  "is_oct c \<longleftrightarrow> 48 \<le> code c \<and> code c \<le> 55"

text \<open>The expressions have two groups; a reference beyond them is an error.\<close>

definition add_group :: "nat \<Rightarrow> tpl list res \<Rightarrow> tpl list res" where
  "add_group n m = (if n > 2 then Inl ReError else rbind m (\<lambda>ts. Inr (Grp n # ts)))"

definition add_lits :: "string \<Rightarrow> tpl list res \<Rightarrow> tpl list res" where
  "add_lits cs m = rbind m (\<lambda>ts. Inr (map Lit cs @ ts))"

definition escapes :: "(char \<times> char) list" where
  "escapes = [(CHR ''a'', CHR 0x07), (CHR ''b'', CHR 0x08), (CHR ''f'', CHR 0x0C),
     (CHR ''n'', CHR 0x0A), (CHR ''r'', CHR 0x0D), (CHR ''t'', CHR 0x09), (CHR ''v'', CHR 0x0B),
     (backslash, backslash)]"

text \<open>
  \<open>re\<close>'s \<open>parse_template\<close>: after a backslash, \<open>g\<close> needs a bracketed group number, a zero
  starts an octal escape, another digit is a group of one or two digits unless three octal
  digits make a character, and any other letter must be a known escape. The expressions of the
  source name no group; a name in the brackets is an error (an \<open>IndexError\<close> of the library, which is
  not told apart from its \<open>re.error\<close> here, since no name of a repository has a backslash).
\<close>

function parse_template :: "string \<Rightarrow> tpl list res" where
  "parse_template [] = Inr []"
| "parse_template (b # s) =
     (if b \<noteq> backslash then add_lits [b] (parse_template s)
      else
        (case s of
           [] \<Rightarrow> Inl ReError
         | c # r \<Rightarrow>
             if c = CHR ''g'' then
               (case strip_prefix ''<'' r of
                  None \<Rightarrow> Inl ReError
                | Some r1 \<Rightarrow>
                    let name = takeWhile (\<lambda>x. x \<noteq> CHR ''>'') r1; r2 = dropWhile (\<lambda>x. x \<noteq> CHR ''>'') r1 in
                    if r2 = [] \<or> name = [] \<or> \<not> list_all is_digit name then Inl ReError
                    else if length r2 \<le> length s then add_group (int10 name) (parse_template (tl r2))
                    else Inl ReError)
             else if c = CHR ''0'' then
               (let o1 = takeWhile is_oct (take 2 r) in
                add_lits [char_of (undigits 8 (map (\<lambda>x. code x - 48) o1) mod 256)]
                  (parse_template (drop (length o1) r)))
             else if is_digit c then
               (case r of
                  [] \<Rightarrow> add_group (int10 [c]) (parse_template r)
                | d # r1 \<Rightarrow>
                    if \<not> is_digit d then add_group (int10 [c]) (parse_template r)
                    else if is_oct c \<and> is_oct d \<and> r1 \<noteq> [] \<and> is_oct (hd r1) then
                      (let v = undigits 8 (map (\<lambda>x. code x - 48) [c, d, hd r1]) in
                       if v > 255 then Inl ReError
                       else add_lits [char_of v] (parse_template (tl r1)))
                    else add_group (int10 [c, d]) (parse_template r1))
             else
               (case map_of escapes c of
                  Some x \<Rightarrow> add_lits [x] (parse_template r)
                | None \<Rightarrow>
                    if is_ascii_letter c then Inl ReError
                    else add_lits [b, c] (parse_template r))))"
  by pat_completeness auto
termination
  by (relation "measure length") auto

declare parse_template.simps(2) [simp del]

definition expand :: "tpl list \<Rightarrow> ref \<Rightarrow> string" where
  "expand ts m =
     (case m of (g1, p, g2) \<Rightarrow>
        concat (map (\<lambda>t. case t of
            Lit c \<Rightarrow> [c]
          | Grp n \<Rightarrow> if n = 0 then g1 @ p @ g2 else if n = 1 then g1 else g2) ts))"

text \<open>\<open>r'\1%s/%s#\2' % (org, name)\<close>.\<close>

definition repl_str :: "string \<Rightarrow> string \<Rightarrow> string" where
  "repl_str org name = [backslash] @ ''1'' @ org @ ''/'' @ name @ ''#'' @ [backslash] @ ''2''"

text \<open>The list comprehension calls \<open>sub\<close> for each line; each call parses the template first.\<close>

definition github_qualify_references ::
  "string list \<Rightarrow> string \<Rightarrow> string \<Rightarrow> string list res"
where
  "github_qualify_references log repo_userorg repo_name =
     rmap (\<lambda>l. rbind (parse_template (repl_str repo_userorg repo_name))
                 (\<lambda>ts. Inr (re_sub (expand ts) ref_match l))) log"

section \<open>The repository's tests\<close>

definition items_unqualified :: "string list" where
  "items_unqualified =
     [''#28'', ''GH-27'', ''klaus #27'', ''Fixes #27'', ''Fixes #27 and #28'', ''(#27)'',
      ''something (#27) done'', ''#27 and (GH-38)'']"

definition exp_items_unqualified :: "string list" where
  "exp_items_unqualified =
     [''lowRISC/ibex#28'', ''lowRISC/ibex#27'', ''klaus lowRISC/ibex#27'',
      ''Fixes lowRISC/ibex#27'', ''Fixes lowRISC/ibex#27 and lowRISC/ibex#28'',
      ''(lowRISC/ibex#27)'', ''something (lowRISC/ibex#27) done'',
      ''lowRISC/ibex#27 and (lowRISC/ibex#38)'']"

definition test_github_qualify_references :: bool where
  "test_github_qualify_references \<longleftrightarrow>
     (let repo_userorg = ''lowRISC''; repo_name = ''ibex'';
          items_qualified = [''Fixes lowrisc/ibex#27'', ''lowrisc/ibex#2''];
          items_invalid = [''something#27'', ''lowrisc/ibex#'']
      in github_qualify_references items_unqualified repo_userorg repo_name
           = Inr exp_items_unqualified
       \<and> github_qualify_references items_qualified repo_userorg repo_name = Inr items_qualified
       \<and> github_qualify_references items_invalid repo_userorg repo_name = Inr items_invalid)"

definition test_github_parse_url :: bool where
  "test_github_parse_url \<longleftrightarrow>
     github_parse_url ''https://example.com/something/asdf.git'' = None
     \<and> github_parse_url ''https://github.com/lowRISC/ibex.git'' = Some (''lowRISC'', ''ibex'')
     \<and> github_parse_url ''https://github.com/lowRISC/ibex'' = Some (''lowRISC'', ''ibex'')
     \<and> github_parse_url ''git@github.com:lowRISC/ibex.git'' = Some (''lowRISC'', ''ibex'')"

end
