(* ===== verification/TextWrap.thy ===== *)
theory TextWrap
  imports PyRuntime
begin

text \<open>
  The filling of paragraphs: \<open>textwrap\<close>'s wrapping of a list of chunks into lines, with the
  defaults the sources use (white space dropped at line ends, long words broken, breaks after
  hyphens), and \<open>format_list_to_str\<close> of \<open>vendor.py\<close> over it. Widths are integers: what is left of
  the width beside the indentation can be negative, and then the loop may never end, which is the
  value \<open>None\<close>. How a text is cut into chunks (words, white space, hyphenated parts) is the parameter
  \<open>chunks_of\<close>: the library cuts with one large regular expression.
\<close>

definition blank :: "string \<Rightarrow> bool" where
  "blank c \<longleftrightarrow> list_all is_space c"

text \<open>The inner loop: chunks that still fit, with the length they take.\<close>

fun take_line :: "int \<Rightarrow> nat \<Rightarrow> string list \<Rightarrow> string list \<times> nat \<times> string list" where
  "take_line w n [] = ([], n, [])"
| "take_line w n (c # cs) =
     (if int (n + length c) \<le> w
      then (case take_line w (n + length c) cs of (line, m, rest) \<Rightarrow> (c # line, m, rest))
      else ([], n, c # cs))"

text \<open>\<open>chunk.rfind('-', 0, k)\<close>.\<close>

definition rfind_hyphen :: "string \<Rightarrow> nat \<Rightarrow> nat option" where
  "rfind_hyphen c k =
     (let r = dropWhile (\<lambda>x. x \<noteq> CHR ''-'') (rev (take k c))
      in if r = [] then None else Some (length r - 1))"

text \<open>Where \<open>_handle_long_word\<close> cuts: the space left, or after the last hyphen in it. The line is
  never longer than a positive width, so the space left is not negative.\<close>

definition long_word_end :: "int \<Rightarrow> nat \<Rightarrow> string \<Rightarrow> nat" where
  "long_word_end w n c =
     (let space_left = (if w < 1 then 1 else nat (w - int n))
      in if length c > space_left
         then (case rfind_hyphen c space_left of
                 Some h \<Rightarrow> if 0 < h \<and> (\<exists>x\<in>set (take h c). x \<noteq> CHR ''-'') then h + 1 else space_left
               | None \<Rightarrow> space_left)
         else space_left)"

text \<open>One line: the chunks that fit, then a piece of a chunk that fits on no line.\<close>

definition next_line :: "int \<Rightarrow> string list \<Rightarrow> string list \<times> string list" where
  "next_line w chunks =
     (case take_line w 0 chunks of
        (line, n, []) \<Rightarrow> (line, [])
      | (line, n, c # rest) \<Rightarrow>
          if int (length c) > w
          then (line @ [take (long_word_end w n c) c], drop (long_word_end w n c) c # rest)
          else (line, c # rest))"

definition drop_last_blank :: "string list \<Rightarrow> string list" where
  "drop_last_blank line = (if line \<noteq> [] \<and> blank (last line) then butlast line else line)"

text \<open>White space at the start of a line goes, except on the first.\<close>

definition skip_blank :: "bool \<Rightarrow> string list \<Rightarrow> string list" where
  "skip_blank started chunks = (if blank (hd chunks) \<and> started then tl chunks else chunks)"

text \<open>\<open>_wrap_chunks\<close>: the indentation of the first line and of the others, the width, whether a
  line has been produced, and the chunks left.\<close>

partial_function (option) wrap_chunks ::
  "string \<Rightarrow> string \<Rightarrow> int \<Rightarrow> bool \<Rightarrow> string list \<Rightarrow> string list option"
where
  "wrap_chunks ind1 ind2 width started chunks =
     (if chunks = [] then Some []
      else
        let indent = (if started then ind2 else ind1);
            (line, rest) = next_line (width - int (length indent)) (skip_blank started chunks);
            line' = drop_last_blank line
        in if line' \<noteq> []
           then Option.bind (wrap_chunks ind1 ind2 width True rest)
                  (\<lambda>lines. Some ((indent @ concat line') # lines))
           else wrap_chunks ind1 ind2 width started rest)"

declare wrap_chunks.simps [code]

text \<open>The width is checked before anything is done; \<open>fill\<close> joins the lines by newlines.\<close>

definition wrap :: "(string \<Rightarrow> string list) \<Rightarrow> string \<Rightarrow> string \<Rightarrow> int \<Rightarrow> string \<Rightarrow> string list res option" where
  "wrap chunks_of ind1 ind2 width s =
     (if width \<le> 0 then Some (Inl (ValueError ''invalid width''))
      else map_option Inr (wrap_chunks ind1 ind2 width False (chunks_of s)))"

definition fill :: "(string \<Rightarrow> string list) \<Rightarrow> string \<Rightarrow> string \<Rightarrow> int \<Rightarrow> string \<Rightarrow> string res option" where
  "fill chunks_of ind1 ind2 width s =
     map_option (\<lambda>r. rbind r (\<lambda>lines. Inr (join_with [newline] lines))) (wrap chunks_of ind1 ind2 width s)"

text \<open>A list comprehension whose element may raise or never come.\<close>

fun each :: "('a \<Rightarrow> 'b res option) \<Rightarrow> 'a list \<Rightarrow> 'b list res option" where
  "each f [] = Some (Inr [])"
| "each f (x # xs) =
     (case f x of
        None \<Rightarrow> None
      | Some (Inl e) \<Rightarrow> Some (Inl e)
      | Some (Inr y) \<Rightarrow> map_option (\<lambda>r. rbind r (\<lambda>ys. Inr (y # ys))) (each f xs))"

definition format_list_to_str :: "(string \<Rightarrow> string list) \<Rightarrow> string list \<Rightarrow> int \<Rightarrow> string res option" where
  "format_list_to_str chunks_of list width =
     map_option (\<lambda>r. rbind r (\<lambda>texts. Inr (join_with [newline] texts)))
       (each (fill chunks_of ''* '' ''  '' width) list)"

section \<open>Progress\<close>

definition chunk_measure :: "string list \<Rightarrow> nat" where
  "chunk_measure cs = sum_list (map length cs) + length cs"

lemma chunk_measure_simps [simp]:
  "chunk_measure [] = 0" "chunk_measure (c # cs) = Suc (length c + chunk_measure cs)"
  "chunk_measure (as @ bs) = chunk_measure as + chunk_measure bs"
  by (simp_all add: chunk_measure_def)

lemma take_line_split:
  "take_line w n cs = (line, m, rest) \<Longrightarrow>
     cs = line @ rest \<and> m = n + length (concat line) \<and> (int n \<le> w \<longrightarrow> int m \<le> w) \<and>
     (rest \<noteq> [] \<longrightarrow> w < int (m + length (hd rest)))"
  by (induction w n cs arbitrary: line m rest rule: take_line.induct)
    (fastforce split: if_splits prod.splits)+

lemma rfind_hyphen_less: "rfind_hyphen c k = Some h \<Longrightarrow> h < k \<and> h < length c"
proof -
  assume "rfind_hyphen c k = Some h"
  then have "dropWhile (\<lambda>x. x \<noteq> CHR ''-'') (rev (take k c)) \<noteq> []"
    "h = length (dropWhile (\<lambda>x. x \<noteq> CHR ''-'') (rev (take k c))) - 1"
    by (auto simp: rfind_hyphen_def Let_def split: if_splits)
  moreover have "length (dropWhile (\<lambda>x. x \<noteq> CHR ''-'') (rev (take k c))) \<le> min (length c) k"
    using length_dropWhile_le [of _ "rev (take k c)"] by (simp add: min.commute)
  ultimately show ?thesis by (cases "dropWhile (\<lambda>x. x \<noteq> CHR ''-'') (rev (take k c))") auto
qed

lemma long_word_end_le: "long_word_end w n c \<le> (if w < 1 then 1 else nat (w - int n))"
proof -
  define k where "k = (if w < 1 then 1 else nat (w - int n))"
  have "long_word_end w n c \<le> k"
  proof (cases "rfind_hyphen c k")
    case (Some h)
    then have "h < k" using rfind_hyphen_less by blast
    with Some show ?thesis unfolding long_word_end_def Let_def k_def [symmetric] by simp
  next
    case None
    then show ?thesis unfolding long_word_end_def Let_def k_def [symmetric] by simp
  qed
  then show ?thesis by (simp only: k_def)
qed

lemma long_word_end_pos: "0 < long_word_end w 0 c"
  by (auto simp: long_word_end_def Let_def split: option.split)

text \<open>A round takes something off, unless an empty chunk meets a negative width.\<close>

lemma next_line_split:
  assumes "next_line w cs = (line, rest)" "cs \<noteq> []"
  shows "chunk_measure rest \<le> chunk_measure cs \<and>
    (0 \<le> w \<or> hd cs \<noteq> [] \<longrightarrow> chunk_measure rest < chunk_measure cs)"
proof -
  obtain l n r where t: "take_line w 0 cs = (l, n, r)" by (metis prod_cases3)
  note s = take_line_split [OF t]
  show ?thesis
  proof (cases r)
    case Nil
    with assms s t show ?thesis by (cases cs) (auto simp: next_line_def)
  next
    case (Cons c r')
    have pos: "l = [] \<Longrightarrow> 0 < long_word_end w n c" using s long_word_end_pos [of w c] by simp
    show ?thesis
    proof (cases "int (length c) > w")
      case True
      then have "rest = drop (long_word_end w n c) c # r'"
        using assms(1) t Cons by (simp add: next_line_def)
      then show ?thesis using s Cons pos True by (cases l; cases c) auto
    next
      case False
      then have "l \<noteq> []" using s Cons by auto
      then show ?thesis using False assms(1) t s Cons by (cases l) (auto simp: next_line_def)
    qed
  qed
qed

lemma wrap_round_decreases:
  assumes "chunks \<noteq> []" "next_line w (skip_blank s chunks) = (line, rest)" "s \<or> 0 \<le> w \<or> hd chunks \<noteq> []"
  shows "chunk_measure rest < chunk_measure chunks"
proof (cases "blank (hd chunks) \<and> s")
  case True
  then have "next_line w (tl chunks) = (line, rest)" using assms(2) by (simp add: skip_blank_def)
  then have "chunk_measure rest \<le> chunk_measure (tl chunks)"
    using next_line_split [of w "tl chunks" line rest]
    by (cases "tl chunks = []") (auto simp: next_line_def)
  then show ?thesis using assms(1) by (cases chunks) auto
next
  case False
  then have "0 \<le> w \<or> hd chunks \<noteq> []" using assms(3) by (auto simp: blank_def)
  then show ?thesis using False assms(1,2) next_line_split [of w chunks line rest]
    by (auto simp: skip_blank_def)
qed

section \<open>Wrapping that returns\<close>

text \<open>The loop returns once a line has been produced, and before that when the first indentation
  leaves room; what holds of its rounds holds of its result.\<close>

lemma wrap_chunks_induct:
  assumes "s \<or> int (length ind1) \<le> width"
    and "\<And>s. P s [] []"
    and "\<And>s chunks line rest lines. chunks \<noteq> [] \<Longrightarrow>
      next_line (width - int (length (if s then ind2 else ind1))) (skip_blank s chunks) = (line, rest) \<Longrightarrow>
      drop_last_blank line \<noteq> [] \<Longrightarrow> P True rest lines \<Longrightarrow>
      P s chunks (((if s then ind2 else ind1) @ concat (drop_last_blank line)) # lines)"
    and "\<And>s chunks line rest lines. chunks \<noteq> [] \<Longrightarrow>
      next_line (width - int (length (if s then ind2 else ind1))) (skip_blank s chunks) = (line, rest) \<Longrightarrow>
      drop_last_blank line = [] \<Longrightarrow> P s rest lines \<Longrightarrow> P s chunks lines"
  shows "\<exists>lines. wrap_chunks ind1 ind2 width s chunks = Some lines \<and> P s chunks lines"
  using assms(1)
proof (induction chunks arbitrary: s rule: measure_induct_rule [of chunk_measure])
  case (less chunks)
  show ?case
  proof (cases "chunks = []")
    case ne: False
    define indent where "indent = (if s then ind2 else ind1)"
    obtain line rest where nl: "next_line (width - int (length indent)) (skip_blank s chunks) = (line, rest)"
      by fastforce
    have "s \<or> 0 \<le> width - int (length indent)" using less.prems by (auto simp: indent_def)
    then have dec: "chunk_measure rest < chunk_measure chunks"
      using wrap_round_decreases [OF ne nl] by blast
    have step: "wrap_chunks ind1 ind2 width s chunks =
        (if drop_last_blank line \<noteq> []
         then Option.bind (wrap_chunks ind1 ind2 width True rest)
                (\<lambda>lines. Some ((indent @ concat (drop_last_blank line)) # lines))
         else wrap_chunks ind1 ind2 width s rest)"
      using ne nl by (subst wrap_chunks.simps) (simp add: Let_def indent_def [symmetric])
    show ?thesis
    proof (cases "drop_last_blank line = []")
      case True
      with less.IH [OF dec less.prems] show ?thesis
        using assms(4) [OF ne] nl step by (fastforce simp: indent_def)
    next
      case False
      obtain lines where "wrap_chunks ind1 ind2 width True rest = Some lines" "P True rest lines"
        using less.IH [OF dec, of True] by blast
      then show ?thesis using assms(3) [OF ne nl [unfolded indent_def] False] step False
        by (simp add: indent_def)
    qed
  qed (simp add: wrap_chunks.simps assms(2))
qed

lemma fill_returns:
  assumes "0 < width" "int (length ind1) \<le> width"
  shows "\<exists>text. fill chunks_of ind1 ind2 width s = Some (Inr text)"
  using assms wrap_chunks_induct [of False ind1 width "\<lambda>_ _ _. True" ind2 "chunks_of s"]
  by (auto simp: fill_def wrap_def)

lemma each_total:
  "(\<And>x. x \<in> set xs \<Longrightarrow> f x = Some (Inr (g x))) \<Longrightarrow> each f xs = Some (Inr (map g xs))"
  by (induction xs) simp_all

lemma format_list_to_str_returns:
  assumes "1 < width"
  shows "\<exists>text. format_list_to_str chunks_of texts width = Some (Inr text)"
proof -
  have "\<exists>g. \<forall>s. fill chunks_of ''* '' ''  '' width s = Some (Inr (g s))"
    using fill_returns [of width "''* ''"] assms by (intro choice) simp
  then obtain g where "\<And>s. fill chunks_of ''* '' ''  '' width s = Some (Inr (g s))" by blast
  then show ?thesis using each_total [of texts _ g] by (simp add: format_list_to_str_def)
qed

end
