(* ===== verification/VendorMain.thy ===== *)
theory VendorMain
  imports VendorOps GitHubRefs TextWrap
begin

text \<open>
  The main program of \<open>vendor.py\<close>, in the stages it has: read the arguments, load the
  description and the lock file, check the working directory, settle what to fetch, and, inside a
  temporary directory, clone, check the revision, import, write the lock file and commit.
  Log messages are left out, except for the work done to produce them.
\<close>

section \<open>Arguments\<close>

text \<open>The command line after the parser has split it; \<open>args\<close> is what the parser returns.\<close>

record cmdline =
  c_update :: bool
  c_refresh :: bool
  c_commit :: bool
  c_overrides :: "string list"
  c_file :: string

record args =
  a_update :: bool
  a_refresh :: bool
  a_commit :: bool
  a_overrides :: "(string \<times> string) list"
  a_desc_file :: handle

text \<open>The parser turns an error of an argument's type into exit status 2; the description file is
  opened while parsing.\<close>

definition usage_error :: "exn \<Rightarrow> 'a io option" where
  "usage_error ex = Some (raise (SystemExit 2))"

definition parse_args :: "cmdline \<Rightarrow> args io" where
  "parse_args c =
     (bind (catch (lift (rmap define_arg_type (c_overrides c))) usage_error) (\<lambda>ovs.
      bind (catch (if c_file c = ''-'' then ret [] else read_file (mk_path (c_file c))) usage_error) (\<lambda>text.
      ret \<lparr>a_update = c_update c, a_refresh = c_refresh c, a_commit = c_commit c, a_overrides = ovs,
           a_desc_file = \<lparr>h_name = (if c_file c = ''-'' then ''<stdin>'' else c_file c),
                          h_text = text\<rparr>\<rparr>)))"

section \<open>Loading\<close>

definition load_lock :: "env \<Rightarrow> path \<Rightarrow> upstream option io" where
  "load_lock e lock_path =
     catch
       (bind (read_file lock_path) (\<lambda>text.
        bind (lift (LockDesc (hjson_loads e) \<lparr>h_name = path_str lock_path, h_text = text\<rparr>)) (\<lambda>u.
        ret (Some u))))
       (\<lambda>ex. case ex of FileNotFoundError l \<Rightarrow> Some (ret None) | _ \<Rightarrow> None)"

definition load_inputs :: "env \<Rightarrow> args \<Rightarrow> (desc \<times> path \<times> upstream option) io" where
  "load_inputs e a =
     catch
       (bind (lift (Desc (hjson_loads e) (a_desc_file a) (a_overrides a))) (\<lambda>d.
        bind (lift (lock_file_path d)) (\<lambda>lock_path.
        bind (load_lock e lock_path) (\<lambda>lock.
        ret (d, lock_path, lock)))))
       (\<lambda>ex. case ex of
               JsonError p m \<Rightarrow> Some (raise (SystemExit 1))
             | ValueError m \<Rightarrow> Some (raise (SystemExit 1))
             | _ \<Rightarrow> None)"

section \<open>What to fetch\<close>

definition check_clean :: "env \<Rightarrow> args \<Rightarrow> desc \<Rightarrow> unit io" where
  "check_clean e a d =
     (if a_commit a
      then bind (git_is_clean_workdir e (path_parent (d_path d)))
             (\<lambda>ok. if ok then ret () else raise (SystemExit 1))
      else ret ())"

text \<open>Without a lock file the program updates; with one and without updating, the upstream of the
  lock file replaces that of the description.\<close>

definition updating :: "args \<Rightarrow> upstream option \<Rightarrow> bool" where
  "updating a lock \<longleftrightarrow> a_update a \<or> lock = None"

definition changed_url :: "desc \<Rightarrow> upstream option \<Rightarrow> bool" where
  "changed_url d lock = (case lock of None \<Rightarrow> False | Some u \<Rightarrow> u_url (d_upstream d) \<noteq> u_url u)"

definition resolve_upstream :: "args \<Rightarrow> desc \<Rightarrow> upstream option \<Rightarrow> desc" where
  "resolve_upstream a d lock =
     (case lock of
        None \<Rightarrow> d
      | Some u \<Rightarrow> if updating a lock then d else d\<lparr>d_upstream := u\<rparr>)"

section \<open>Inside the temporary directory\<close>

definition check_revision :: "bool \<Rightarrow> upstream option \<Rightarrow> string \<Rightarrow> unit io" where
  "check_revision update lock new_rev =
     (case lock of
        None \<Rightarrow> if update then ret () else raise AttributeError
      | Some u \<Rightarrow> if \<not> update \<and> new_rev \<noteq> u_rev u then raise (SystemExit 1) else ret ())"

definition enter_subdir :: "desc \<Rightarrow> path \<Rightarrow> path io" where
  "enter_subdir d clone_dir w =
     (case u_only_subdir (d_upstream d) of
        None \<Rightarrow> ret clone_dir w
      | Some s \<Rightarrow>
          (let sub = path_join clone_dir (mk_path s)
           in if is_dir sub w then ret sub w else raise (SystemExit 1) w))"

text \<open>The log of the changes, with its references qualified; \<open>None\<close> when it is not asked for or
  cannot be had. It is formatted at once for the log message, which returns and changes nothing.\<close>

definition get_shortlog ::
  "env \<Rightarrow> bool \<Rightarrow> desc \<Rightarrow> upstream option \<Rightarrow> bool \<Rightarrow> path \<Rightarrow> string \<Rightarrow> string list option io"
where
  "get_shortlog e update d lock changed clone_subdir new_rev =
     (case lock of
        None \<Rightarrow> ret None
      | Some u \<Rightarrow>
          if \<not> update \<or> changed then ret None
          else
            bind (produce_shortlog e clone_subdir (d_mapping d) (u_rev u) new_rev) (\<lambda>shortlog.
            bind (lift (case github_parse_url (u_url (d_upstream d)) of
                          None \<Rightarrow> Inr shortlog
                        | Some (org, name) \<Rightarrow> github_qualify_references shortlog org name)) (\<lambda>shortlog.
            ret (Some shortlog))))"

definition LOCK_FILE_HEADER :: string where
  "LOCK_FILE_HEADER = join_with [newline]
     [''// Copyright lowRISC contributors.'',
      ''// Licensed under the Apache License, Version 2.0, see LICENSE for details.'',
      ''// SPDX-License-Identifier: Apache-2.0'',
      '''',
      ''// This file is generated by the util/vendor script. Please do not modify it'',
      ''// manually.'',
      '''',
      '''']"

definition lock_data :: "upstream \<Rightarrow> string \<Rightarrow> json" where
  "lock_data u new_rev =
     JDict [(''upstream'',
       (case as_dict u of JDict d \<Rightarrow> JDict (dict_set ''rev'' (JStr new_rev) d) | j \<Rightarrow> j))]"

definition lock_text :: "env \<Rightarrow> upstream \<Rightarrow> string \<Rightarrow> string" where
  "lock_text e u new_rev = LOCK_FILE_HEADER @ hjson_dumps e (lock_data u new_rev) @ [newline]"

definition write_lock :: "env \<Rightarrow> bool \<Rightarrow> desc \<Rightarrow> path \<Rightarrow> string \<Rightarrow> unit io" where
  "write_lock e update d lock_path new_rev =
     (if update then write_file lock_path (lock_text e (d_upstream d) new_rev) else ret ())"

section \<open>The commit\<close>

text \<open>Texts are filled to the width 70 here. That always returns, so a filled text is a string.\<close>

definition filled :: "string res option \<Rightarrow> string" where
  "filled m = projr (the m)"

lemma filled_70:
  "fill cs [] [] 70 s = Some (Inr (filled (fill cs [] [] 70 s)))"
  "format_list_to_str cs l 70 = Some (Inr (filled (format_list_to_str cs l 70)))"
proof -
  show "fill cs [] [] 70 s = Some (Inr (filled (fill cs [] [] 70 s)))"
    using fill_returns [of 70 "[]" cs "[]" s] by (auto simp: filled_def)
  show "format_list_to_str cs l 70 = Some (Inr (filled (format_list_to_str cs l 70)))"
    using format_list_to_str_returns [of 70 cs l] by (auto simp: filled_def)
qed

definition commit_msg ::
  "env \<Rightarrow> desc \<Rightarrow> string \<Rightarrow> string \<Rightarrow> string list option \<Rightarrow> string"
where
  "commit_msg e d sha_short new_rev shortlog =
     (let u = d_upstream d;
          sha = (case github_parse_url (u_url u) of
                   None \<Rightarrow> sha_short
                 | Some (org, name) \<Rightarrow> org @ ''/'' @ name @ ''@'' @ sha_short);
          subject = ''Update '' @ d_name d @ '' to '' @ sha;
          intro = ''Update code from '' @
                  (case u_only_subdir u of None \<Rightarrow> [] | Some s \<Rightarrow> ''subdir '' @ s @ '' in '')
                  @ ''upstream repository '' @ u_url u @ '' to revision '' @ new_rev;
          body = filled (fill (chunks e) [] [] 70 intro);
          log = (case shortlog of
                   None \<Rightarrow> []
                 | Some l \<Rightarrow> if l = [] then []
                             else [newline, newline] @ filled (format_list_to_str (chunks e) l 70))
      in subject @ [newline, newline] @ body @ log)"

definition commit_changes ::
  "env \<Rightarrow> args \<Rightarrow> desc \<Rightarrow> path \<Rightarrow> path \<Rightarrow> string \<Rightarrow> string list option \<Rightarrow> unit io"
where
  "commit_changes e a d lock_path clone_subdir new_rev shortlog =
     (if a_commit a
      then
        bind (git_get_short_rev e clone_subdir new_rev) (\<lambda>sha_short.
        bind (if a_refresh a
              then (case d_patch_dir d of None \<Rightarrow> raise AttributeError | Some p \<Rightarrow> ret [p])
              else ret []) (\<lambda>patch_paths.
        git_add_commit e ([d_target_dir d] @ patch_paths @ [lock_path])
          (commit_msg e d sha_short new_rev shortlog)))
      else ret ())"

section \<open>The program\<close>

definition fetch ::
  "env \<Rightarrow> args \<Rightarrow> desc \<Rightarrow> path \<Rightarrow> upstream option \<Rightarrow> bool \<Rightarrow> path \<Rightarrow> unit io"
where
  "fetch e a d lock_path lock changed clone_dir =
     (let update = updating a lock in
      bind (clone_git_repo e (u_url (d_upstream d)) clone_dir (u_rev (d_upstream d))) (\<lambda>new_rev.
      bind (check_revision update lock new_rev) (\<lambda>_.
      bind (enter_subdir d clone_dir) (\<lambda>clone_subdir.
      bind (import_from_upstream e d clone_subdir) (\<lambda>_.
      bind (get_shortlog e update d lock changed clone_subdir new_rev) (\<lambda>shortlog.
      bind (write_lock e update d lock_path new_rev) (\<lambda>_.
      commit_changes e a d lock_path clone_subdir new_rev shortlog)))))))"

definition vendor :: "env \<Rightarrow> args \<Rightarrow> unit io" where
  "vendor e a =
     bind (load_inputs e a) (\<lambda>(d0, lock_path, lock).
     bind (check_clean e a d0) (\<lambda>_.
     let d = resolve_upstream a d0 lock in
     bind (if a_refresh a then refresh_patches e d else ret ()) (\<lambda>_.
     with_tempdir e (fetch e a d lock_path lock (changed_url d0 lock)))))"

definition main :: "env \<Rightarrow> cmdline \<Rightarrow> unit io" where
  "main e c = bind (parse_args c) (vendor e)"

text \<open>Run as a script: a command that failed is reported, with its arguments joined, which works for
  strings only, and raised again.\<close>

fun is_str_arg :: "cmd_arg \<Rightarrow> bool" where
  "is_str_arg (Str s) = True"
| "is_str_arg (PathArg s) = False"

definition script :: "env \<Rightarrow> cmdline \<Rightarrow> unit io" where
  "script e c =
     catch (main e c)
       (\<lambda>ex. case ex of CalledProcessError cmd rc out err \<Rightarrow>
                 Some (raise (if list_all is_str_arg cmd then ex else TypeError)) | _ \<Rightarrow> None)"

end
