(* ===== verification/Steps.thy ===== *)
theory Steps
  imports WorldFacts VendorMain
begin

text \<open>
  Runs as sequences of steps. A step is an event that changes the file system as that event does;
  \<open>stays\<close> says that every step of a program, from a given working directory, records an event that
  satisfies a predicate. The rules follow the structure of a program, down to the actions, whose
  events are at the places that the paths of their arguments denote.
\<close>

section \<open>Steps\<close>

definition move :: "(event \<Rightarrow> node \<Rightarrow> node \<Rightarrow> bool) \<Rightarrow> world \<Rightarrow> world \<Rightarrow> bool" where
  "move R w w' \<longleftrightarrow> (\<exists>ev t. R ev (tree w) t \<and> w' = emit ev t w)"

abbreviation moves :: "(event \<Rightarrow> node \<Rightarrow> node \<Rightarrow> bool) \<Rightarrow> world \<Rightarrow> world \<Rightarrow> bool" where
  "moves R \<equiv> (move R)\<^sup>*\<^sup>*"

lemma moves_cwd: "moves R w w' \<Longrightarrow> cwd w' = cwd w"
  by (induction rule: rtranclp_induct) (auto simp: move_def)

lemma moves_trace:
  assumes "moves (\<lambda>ev t t'. P ev \<and> Q ev t t') w w'"
  shows "\<exists>evs. trace w' = trace w @ evs \<and> list_all P evs"
  using assms
proof (induction rule: rtranclp_induct)
  case (step w1 w2)
  then obtain evs ev where "trace w1 = trace w @ evs" "list_all P evs" "P ev" "trace w2 = trace w1 @ [ev]"
    by (auto simp: move_def)
  then show ?case by (intro exI [of _ "evs @ [ev]"]) simp
qed simp

text \<open>What holds of a location that every step keeps.\<close>

lemma moves_invariant:
  assumes "moves R w w'" "I (tree w)" "\<And>ev t t'. R ev t t' \<Longrightarrow> I t \<Longrightarrow> I t'"
  shows "I (tree w')"
  using assms(1,2) by (induction rule: rtranclp_induct) (auto simp: move_def intro: assms(3))

section \<open>Programs\<close>

definition within :: "loc \<Rightarrow> (event \<Rightarrow> node \<Rightarrow> node \<Rightarrow> bool) \<Rightarrow> 'a io \<Rightarrow> bool" where
  "within c R m \<longleftrightarrow> (\<forall>w. cwd w = c \<longrightarrow> moves R w (snd (m w)))"

lemma withinD: "within c R m \<Longrightarrow> cwd w = c \<Longrightarrow> m w = (r, w') \<Longrightarrow> moves R w w'"
  by (metis within_def snd_conv)

lemma within_action:
  assumes "\<And>w. cwd w = c \<Longrightarrow> snd (m w) = w \<or> (\<exists>ev t. R ev (tree w) t \<and> snd (m w) = emit ev t w)"
  shows "within c R m"
  unfolding within_def
proof (intro allI impI)
  fix w :: world
  assume c: "cwd w = c"
  show "moves R w (snd (m w))"
    using assms [OF c]
  proof
    assume "\<exists>ev t. R ev (tree w) t \<and> snd (m w) = emit ev t w"
    then have "move R w (snd (m w))" by (simp add: move_def)
    then show ?thesis by (rule r_into_rtranclp)
  qed simp
qed

lemma within_ret [within_intros]: "within c R (ret x)"
  by (rule within_action) (simp add: ret_def)

lemma within_raise [within_intros]: "within c R (raise e)"
  by (rule within_action) (simp add: raise_def)

lemma within_lift [within_intros]: "within c R (lift r)"
  by (rule within_action) (simp add: lift_def)

lemma within_bind [within_intros]:
  assumes "within c R m" "\<And>x. within c R (f x)"
  shows "within c R (bind m f)"
  unfolding within_def
proof (intro allI impI)
  fix w :: world
  assume c: "cwd w = c"
  obtain r w1 where m: "m w = (r, w1)" by fastforce
  have 1: "moves R w w1" using withinD [OF assms(1) c m] .
  show "moves R w (snd (bind m f w))"
  proof (cases r)
    case (Inr x)
    obtain r' w2 where f: "f x w1 = (r', w2)" by fastforce
    have "moves R w1 w2" using withinD [OF assms(2) _ f] moves_cwd [OF 1] c by simp
    then show ?thesis using 1 m Inr f by (simp add: bind_def)
  qed (use 1 m in \<open>simp add: bind_def\<close>)
qed

lemma within_catch [within_intros]:
  assumes "within c R m" "\<And>e m'. h e = Some m' \<Longrightarrow> within c R m'"
  shows "within c R (catch m h)"
  unfolding within_def
proof (intro allI impI)
  fix w :: world
  assume c: "cwd w = c"
  obtain r w1 where m: "m w = (r, w1)" by fastforce
  have 1: "moves R w w1" using withinD [OF assms(1) c m] .
  show "moves R w (snd (catch m h w))"
  proof (cases "\<exists>e m'. r = Inl e \<and> h e = Some m'")
    case True
    then obtain e m' where e: "r = Inl e" "h e = Some m'" by blast
    obtain r' w2 where f: "m' w1 = (r', w2)" by fastforce
    have "moves R w1 w2" using withinD [OF assms(2) [OF e(2)] _ f] moves_cwd [OF 1] c by simp
    then show ?thesis using 1 m e f by (simp add: catch_def)
  qed (use 1 m in \<open>auto simp: catch_def split: sum.splits option.splits\<close>)
qed

lemma within_for_each: "(\<And>x. x \<in> set xs \<Longrightarrow> within c R (f x)) \<Longrightarrow> within c R (for_each xs f)"
  by (induction xs) (auto intro: within_intros)

lemma within_if [within_intros]:
  "(b \<Longrightarrow> within c R m1) \<Longrightarrow> (\<not> b \<Longrightarrow> within c R m2) \<Longrightarrow> within c R (if b then m1 else m2)"
  by simp

lemma within_option [within_intros]:
  "(x = None \<Longrightarrow> within c R m1) \<Longrightarrow> (\<And>y. x = Some y \<Longrightarrow> within c R (m2 y)) \<Longrightarrow>
     within c R (case x of None \<Rightarrow> m1 | Some y \<Rightarrow> m2 y)"
  by (cases x) auto

text \<open>A program that is another one in each world.\<close>

lemma within_pointwise:
  "(\<And>w. cwd w = c \<Longrightarrow> \<exists>m. within c R m \<and> f w = m w) \<Longrightarrow> within c R f"
  unfolding within_def by metis

lemma within_look: "(\<And>w0. cwd w0 = c \<Longrightarrow> within c R (f w0)) \<Longrightarrow> within c R (\<lambda>w. f w w)"
  by (rule within_pointwise) blast

section \<open>The actions\<close>

text \<open>What each event does to the file system.\<close>

fun effect :: "env \<Rightarrow> event \<Rightarrow> node \<Rightarrow> node \<Rightarrow> bool" where
  "effect e (Run argv l inp) t t' \<longleftrightarrow> t' = snd (snd (snd (ext e argv l inp t)))"
| "effect e (MkDir l) t t' \<longleftrightarrow> node_at l t = None \<and> put_at l (Dir []) t = Some t'"
| "effect e (RmTree l) t t' \<longleftrightarrow> t' = del_at l t"
| "effect e (Unlink l) t t' \<longleftrightarrow> is_regular (node_at l t) \<and> t' = del_at l t"
| "effect e (CopyFile a b) t t' \<longleftrightarrow> (\<exists>s. put_at b (File s) t = Some t')"
| "effect e (CopyTree a b) t t' \<longleftrightarrow> (\<exists>n. put_at b n t = Some t')"
| "effect e (WriteFile l s) t t' \<longleftrightarrow> put_at l (File s) t = Some t'"
| "effect e (MkTemp l) t t' \<longleftrightarrow> l = mktemp e t \<and> put_at l (Dir []) t = Some t'"
| "effect e (RmTemp l) t t' \<longleftrightarrow> (\<exists>t0. l = mktemp e t0) \<and> t' = del_at l t"

abbreviation stays :: "env \<Rightarrow> loc \<Rightarrow> (event \<Rightarrow> bool) \<Rightarrow> 'a io \<Rightarrow> bool" where
  "stays e c P m \<equiv> within c (\<lambda>ev t t'. P ev \<and> effect e ev t t') m"

lemma within_read_file [within_intros]: "within c R (read_file p)"
  by (rule within_action) (auto simp: read_file_def split: sum.splits option.splits node.splits)

lemma within_read_dir [within_intros]: "within c R (read_dir p)"
  by (rule within_action) (auto simp: read_dir_def split: sum.splits option.splits node.splits)

lemma stays_write_file: "path_wf p \<Longrightarrow> P (WriteFile (place c p) s) \<Longrightarrow> stays e c P (write_file p s)"
  by (rule within_action)
    (auto simp: write_file_def put_file_def split: sum.splits option.splits dest: locate_place)

lemma stays_os_mkdir: "path_wf p \<Longrightarrow> P (MkDir (place c p)) \<Longrightarrow> stays e c P (os_mkdir p)"
  by (rule within_action) (auto simp: os_mkdir_def split: sum.splits option.splits dest: locate_place)

lemma stays_rmtree: "path_wf p \<Longrightarrow> P (RmTree (place c p)) \<Longrightarrow> stays e c P (rmtree p)"
  by (rule within_action) (auto simp: rmtree_def split: sum.splits dest: locate_place)

lemma stays_run: "(\<And>l. P (Run argv l inp)) \<Longrightarrow> stays e c P (run e dir argv inp)"
proof (rule within_action)
  fix w :: world
  assume P: "\<And>l. P (Run argv l inp)"
  have "\<exists>ev t. (P ev \<and> effect e ev (tree w) t) \<and> snd (run_in e l argv inp w) = emit ev t w" for l
    using P by (intro exI [of _ "Run argv l inp"] exI [of _ "snd (snd (snd (ext e argv l inp (tree w))))"])
      (auto simp: run_in_def Let_def split: prod.splits)
  then show "snd (run e dir argv inp w) = w \<or>
      (\<exists>ev t. (P ev \<and> effect e ev (tree w) t) \<and> snd (run e dir argv inp w) = emit ev t w)"
    by (auto simp: run_def split: option.splits sum.splits node.splits)
qed

lemma emit_step:
  "P ev \<Longrightarrow> effect e ev (tree w) t \<Longrightarrow>
     \<exists>ev'. P ev' \<and> (\<exists>t'. effect e ev' (tree w) t' \<and> emit ev t w = emit ev' t' w)"
  by blast

text \<open>An entry of a directory is below the place of the directory.\<close>

lemma os_walk_snoc:
  "os_walk t cur (cs @ [n]) = Inr l \<Longrightarrow>
     \<exists>k. os_walk t cur cs = Inr k \<and> is_directory (node_at k t) \<and> l = (if n = ''..'' then butlast k else k @ [n])"
proof (induction cs arbitrary: cur)
  case Nil
  then show ?case by (auto simp: butlast_rev split: option.splits node.splits)
next
  case (Cons c cs)
  show ?case
  proof (cases "node_at (rev cur) t")
    case (Some m)
    then show ?thesis using Cons by (cases m) auto
  qed (use Cons.prems in simp)
qed

lemma locate_entry:
  assumes "path_wf p" "n \<noteq> ''..''" "locate (p\<lparr>parts := parts p @ [n]\<rparr>) w = Inr l"
  shows "l = place (cwd w) p @ [n]"
proof -
  have "os_walk (tree w) (start_dir p w) (parts p @ [n]) = Inr l"
    using assms(3) by (simp add: locate_def start_dir_def)
  then obtain k where "locate p w = Inr k" "l = k @ [n]"
    using os_walk_snoc [of "tree w" "start_dir p w" "parts p" n l] assms(2) by (auto simp: locate_def)
  then show ?thesis using locate_place [OF assms(1)] by simp
qed

text \<open>A regular file is not named by two dots.\<close>

lemma file_name:
  assumes "is_file p w"
  shows "path_name p \<noteq> ''..''"
proof
  assume "path_name p = ''..''"
  then have p: "parts p = butlast (parts p) @ [''..'']"
    by (metis append_butlast_last_id list.distinct(1) path_name_def)
  obtain l where l: "locate p w = Inr l" "is_regular (node_at l (tree w))"
    using assms by (auto simp: is_file_def stat_def split: sum.splits)
  then have "os_walk (tree w) (start_dir p w) (butlast (parts p) @ [''..'']) = Inr l"
    using p by (simp add: locate_def)
  then obtain k where k: "is_directory (node_at k (tree w))" "l = butlast k"
    using os_walk_snoc by fastforce
  have "is_directory (node_at l (tree w))"
    by (rule is_directory_prefix [OF k(1)]) (simp add: k(2) prefixeq_butlast)
  then show False using l(2) by (auto simp: is_directory_iff)
qed

lemma stays_unlink:
  assumes "path_wf p" "n \<noteq> ''..''" "P (Unlink (place c p @ [n]))"
  shows "stays e c P (unlink (p\<lparr>parts := parts p @ [n]\<rparr>))"
  by (rule within_action)
    (use assms in \<open>auto simp: unlink_def split: sum.splits option.splits node.splits dest!: locate_entry\<close>)


text \<open>Making directories works on the way to the path.\<close>

lemma stays_mkdir_exist_ok:
  assumes "path_wf p" "P (MkDir (place c p))" "\<And>e'. stays e c P (retry e')"
  shows "stays e c P (mkdir_exist_ok p retry)"
proof -
  have "stays e c P (\<lambda>w. if is_dir p w then ret () w else raise e' w)" for e'
    by (rule within_action) (simp add: io_simps)
  then show ?thesis unfolding mkdir_exist_ok_def
    by (intro within_catch stays_os_mkdir assms) (auto split: exn.splits intro: assms(3))
qed

lemma stays_mkdir_parents:
  assumes "path_wf p" "\<And>ps. prefix ps (parts p) \<Longrightarrow> P (MkDir (place c (p\<lparr>parts := ps\<rparr>)))"
  shows "stays e c P (mkdir_parents p)"
  using assms
proof (induction p rule: mkdir_parents.induct)
  case (1 p)
  have here: "P (MkDir (place c p))" using "1.prems"(2) [of "parts p"] by simp
  have "stays e c P (mkdir_parents (path_parent p))" if "parts p \<noteq> []"
  proof (rule "1.IH")
    show "P (MkDir (place c ((path_parent p)\<lparr>parts := ps\<rparr>)))" if "prefix ps (parts (path_parent p))" for ps
      using that "1.prems"(2) [of ps] prefixeq_butlast [of "parts p"]
      by (simp add: path_parent_def)
  qed (use that "1.prems"(1) in auto)
  then show ?case
    by (subst mkdir_parents.simps)
      (intro stays_mkdir_exist_ok within_if within_raise within_bind here "1.prems"(1))
qed

lemma stays_makedirs:
  assumes "path_wf p" "\<And>ps. prefix ps (parts p) \<Longrightarrow> P (MkDir (place c (p\<lparr>parts := ps\<rparr>)))"
  shows "stays e c P (makedirs p)"
proof (rule within_pointwise)
  fix w :: world
  let ?m = "bind (if parts p \<noteq> [] \<and> stat (path_parent p) w = None then mkdir_parents (path_parent p)
    else ret ()) (\<lambda>_. os_mkdir p)"
  have "P (MkDir (place c ((path_parent p)\<lparr>parts := ps\<rparr>)))" if "prefix ps (parts (path_parent p))" for ps
    using that assms(2) [of ps] prefixeq_butlast [of "parts p"]
    by (simp add: path_parent_def)
  then have "stays e c P ?m"
    using assms(2) [of "parts p"]
    by (intro within_bind within_if within_ret stays_mkdir_parents stays_os_mkdir path_parent_wf assms(1)) simp_all
  then show "\<exists>m. stays e c P m \<and> makedirs p w = m w" by (intro exI [of _ ?m]) (simp add: makedirs_def)
qed

text \<open>Copies arrive at the path or, for a file, in the directory there.\<close>

lemma copy_dest_below:
  assumes "path_wf dst" "path_name src \<noteq> ''..''" "locate (copy_dest src dst w) w = Inr l"
  shows "prefix (place (cwd w) dst) l"
  using assms(3) locate_place [OF assms(1), of w l] locate_entry [OF assms(1,2), of w l]
  by (auto simp: copy_dest_def path_join_def split: if_splits)

lemma stays_copy_file:
  assumes "path_wf dst" "path_name src \<noteq> ''..''"
    and "\<And>a l. prefix (place c dst) l \<Longrightarrow> P (CopyFile a l)"
  shows "stays e c P (copy_file src dst)"
proof -
  have "stays e c P (\<lambda>w. place_file src (copy_dest src dst w) s w)" for s
    by (rule within_action)
      (use assms copy_dest_below [OF assms(1,2)] in
        \<open>auto simp: place_file_def put_file_def split: sum.splits option.splits intro!: emit_step\<close>)
  then show ?thesis unfolding copy_file_def by (intro within_bind within_read_file)
qed

lemma stays_copytree:
  assumes "path_wf dst" "\<And>ps. prefix ps (parts dst) \<Longrightarrow> P (MkDir (place c (dst\<lparr>parts := ps\<rparr>)))"
    and "\<And>a. P (CopyTree a (place c dst))"
  shows "stays e c P (copytree src dst ign)"
proof -
  have "stays e c P (place_dir from dst n)" for "from" n
    by (rule within_action)
      (use assms(1,3) in \<open>auto simp: place_dir_def split: sum.splits option.splits
        intro!: emit_step dest: locate_place\<close>)
  then show ?thesis unfolding copytree_def
    by (auto intro!: within_bind within_read_dir stays_makedirs assms(1,2) split: prod.splits)
qed

lemma stays_with_tempdir:
  assumes "\<And>t. P (MkTemp (mktemp e t))" "\<And>t. P (RmTemp (mktemp e t))"
    and "\<And>t. stays e c P (body \<lparr>root = ''/'', parts = mktemp e t\<rparr>)"
  shows "stays e c P (with_tempdir e body)"
  unfolding within_def
proof (intro allI impI)
  fix w :: world
  let ?R = "\<lambda>ev t t'. P ev \<and> effect e ev t t'" and ?l = "mktemp e (tree w)"
  assume c: "cwd w = c"
  show "moves ?R w (snd (with_tempdir e body w))"
  proof (cases "put_at ?l (Dir []) (tree w)")
    case (Some t1)
    let ?w1 = "emit (MkTemp ?l) t1 w"
    obtain r w2 where b: "body \<lparr>root = ''/'', parts = ?l\<rparr> ?w1 = (r, w2)" by fastforce
    have "move ?R w ?w1" using Some assms(1) [of "tree w"] by (auto simp: move_def)
    moreover have "moves ?R ?w1 w2" using withinD [OF assms(3) _ b] c by simp
    moreover have "move ?R w2 (emit (RmTemp ?l) (del_at ?l (tree w2)) w2)"
      using assms(2) [of "tree w"] by (auto simp: move_def intro!: emit_step)
    ultimately show ?thesis using Some b by (simp add: with_tempdir_def Let_def)
  qed (simp add: with_tempdir_def Let_def)
qed

section \<open>The operations\<close>

lemma stays_handler:
  "(\<And>argv rc out err. within c R (h argv rc out err)) \<Longrightarrow> within c R m \<Longrightarrow>
   within c R (catch m (\<lambda>ex. case ex of CalledProcessError argv rc out err \<Rightarrow> Some (h argv rc out err) | _ \<Rightarrow> None))"
  by (rule within_catch) (auto split: exn.splits)

lemma stays_git:
  assumes "\<And>as l inp. P (Run (''git'' # as) l inp)"
  shows "stays e c P (git_is_clean_workdir e p)" "stays e c P (clone_git_repo e url dir rv)"
    "stays e c P (git_get_short_rev e p rv)" "stays e c P (git_add_commit e ps msg)"
    "stays e c P (produce_shortlog e p mapping old new)" "stays e c P (apply_patch e p q)"
proof -
  have r: "stays e c P (run e d (''git'' # as) inp)" for d as inp by (rule stays_run) (rule assms)
  show "stays e c P (git_is_clean_workdir e p)"
    unfolding git_is_clean_workdir_def by (intro within_bind within_ret r)
  show "stays e c P (clone_git_repo e url dir rv)"
    unfolding clone_git_repo_def append.simps by (intro within_bind within_ret r)
  show "stays e c P (git_get_short_rev e p rv)"
    unfolding git_get_short_rev_def by (intro within_bind within_ret r)
  show "stays e c P (apply_patch e p q)"
    unfolding apply_patch_def append.simps by (intro within_bind within_ret r)
  show "stays e c P (produce_shortlog e p mapping old new)"
    unfolding produce_shortlog_def Let_def append.simps by (intro stays_handler within_bind within_ret r)
  show "stays e c P (git_add_commit e ps msg)"
  proof (rule within_pointwise)
    fix w :: world
    let ?b = "PathArg (path_str (path_parent (hd ps)))"
    let ?m = "if ps = [] then raise AssertionError
      else bind (run_args e (Str ''git'' # [Str ''-C'', ?b, Str ''add'']
          @ map (\<lambda>p. PathArg (path_str (path_resolve p w))) ps) []) (\<lambda>_.
        ignore_failure (bind (run_args e (Str ''git'' # [Str ''-C'', ?b, Str ''commit'', Str ''-s'',
          Str ''-F'', Str ''-'']) msg) (\<lambda>_. ret ())))"
    have "stays e c P (run_args e (Str ''git'' # as) inp)" for as inp
      unfolding run_args_def list.map arg_str.simps by (intro stays_handler r within_raise)
    then have "stays e c P ?m"
      unfolding ignore_failure_def by (intro within_if within_raise stays_handler within_bind within_ret)
    then show "\<exists>m. stays e c P m \<and> git_add_commit e ps msg w = m w"
      by (intro exI [of _ ?m]) (simp add: git_add_commit_def Let_def)
  qed
qed


end
