(* ===== verification/Effects.thy ===== *)
theory Effects
  imports VendorMain
begin

text \<open>
  Which events a program can record. \<open>emits P m\<close> says that every run of \<open>m\<close>, whether it returns
  or raises, only adds events that satisfy \<open>P\<close> to the trace and stays in the same working
  directory. The rules follow the structure of a program, so a claim about a whole program is
  found by applying them.
\<close>

definition emits :: "(event \<Rightarrow> bool) \<Rightarrow> 'a io \<Rightarrow> bool" where
  "emits P m \<longleftrightarrow>
     (\<forall>w. cwd (snd (m w)) = cwd w \<and> (\<exists>evs. trace (snd (m w)) = trace w @ evs \<and> list_all P evs))"

lemma emitsD:
  assumes "emits P m" "m w = (r, w')"
  obtains evs where "trace w' = trace w @ evs" "list_all P evs" "cwd w' = cwd w"
  using assms by (metis emits_def snd_conv)

lemma emits_trace: "emits P m \<Longrightarrow> \<exists>evs. trace (snd (m w)) = trace w @ evs \<and> list_all P evs"
  by (simp add: emits_def)

lemma emitsI:
  "(\<And>w. cwd (snd (m w)) = cwd w) \<Longrightarrow>
   (\<And>w. \<exists>evs. trace (snd (m w)) = trace w @ evs \<and> list_all P evs) \<Longrightarrow> emits P m"
  by (simp add: emits_def)

lemma emits_mono: "emits P m \<Longrightarrow> (\<And>ev. P ev \<Longrightarrow> Q ev) \<Longrightarrow> emits Q m"
  unfolding emits_def by (metis list_all_iff)

text \<open>One action: the world is as it was, or one event is recorded.\<close>

lemma emits_action:
  assumes "\<And>w. snd (m w) = w \<or> (\<exists>ev t. P ev \<and> snd (m w) = emit ev t w)"
  shows "emits P m"
proof (rule emitsI)
  fix w
  show "cwd (snd (m w)) = cwd w" using assms [of w] by (auto simp: emit_def)
  show "\<exists>evs. trace (snd (m w)) = trace w @ evs \<and> list_all P evs"
    using assms [of w] by (auto simp: emit_def)
qed

lemma emits_ret [emits_intros]: "emits P (ret x)"
  by (rule emits_action) (simp add: ret_def)

lemma emits_raise [emits_intros]: "emits P (raise e)"
  by (rule emits_action) (simp add: raise_def)

lemma emits_lift [emits_intros]: "emits P (lift r)"
  by (rule emits_action) (simp add: lift_def)

lemma emits_bind [emits_intros]:
  assumes "emits P m" "\<And>x. emits P (f x)"
  shows "emits P (bind m f)"
proof -
  have "cwd (snd (bind m f w)) = cwd w \<and>
      (\<exists>evs. trace (snd (bind m f w)) = trace w @ evs \<and> list_all P evs)" for w
  proof -
    obtain r w1 where m: "m w = (r, w1)" by fastforce
    obtain evs where evs: "trace w1 = trace w @ evs" "list_all P evs" "cwd w1 = cwd w"
      using emitsD [OF assms(1) m] .
    show ?thesis
    proof (cases r)
      case (Inr x)
      obtain r' w2 where f: "f x w1 = (r', w2)" by fastforce
      obtain evs' where "trace w2 = trace w1 @ evs'" "list_all P evs'" "cwd w2 = cwd w1"
        using emitsD [OF assms(2) f] .
      then show ?thesis using m Inr f evs by (simp add: bind_def)
    qed (use m evs in \<open>simp add: bind_def\<close>)
  qed
  then show ?thesis by (simp add: emits_def)
qed

lemma emits_catch [emits_intros]:
  assumes "emits P m" "\<And>e m'. h e = Some m' \<Longrightarrow> emits P m'"
  shows "emits P (catch m h)"
proof -
  have "cwd (snd (catch m h w)) = cwd w \<and>
      (\<exists>evs. trace (snd (catch m h w)) = trace w @ evs \<and> list_all P evs)" for w
  proof -
    obtain r w1 where m: "m w = (r, w1)" by fastforce
    obtain evs where evs: "trace w1 = trace w @ evs" "list_all P evs" "cwd w1 = cwd w"
      using emitsD [OF assms(1) m] .
    show ?thesis
    proof (cases "\<exists>e m'. r = Inl e \<and> h e = Some m'")
      case True
      then obtain e m' where e: "r = Inl e" "h e = Some m'" by blast
      obtain r' w2 where f: "m' w1 = (r', w2)" by fastforce
      obtain evs' where "trace w2 = trace w1 @ evs'" "list_all P evs'" "cwd w2 = cwd w1"
        using emitsD [OF assms(2) [OF e(2)] f] .
      then show ?thesis using m e f evs by (simp add: catch_def)
    qed (use m evs in \<open>auto simp: catch_def split: sum.splits option.splits\<close>)
  qed
  then show ?thesis by (simp add: emits_def)
qed

lemma emits_for_each [emits_intros]: "(\<And>x. emits P (f x)) \<Longrightarrow> emits P (for_each xs f)"
  by (induction xs) (auto intro: emits_intros)

text \<open>A program that looks at the world first.\<close>

lemma emits_look: "(\<And>w0. emits P (f w0)) \<Longrightarrow> emits P (\<lambda>w. f w w)"
  by (simp add: emits_def)

lemma emits_pointwise: "(\<And>w. \<exists>m. emits P m \<and> f w = m w) \<Longrightarrow> emits P f"
  unfolding emits_def by metis

lemma emits_if [emits_intros]:
  "(b \<Longrightarrow> emits P m1) \<Longrightarrow> (\<not> b \<Longrightarrow> emits P m2) \<Longrightarrow> emits P (if b then m1 else m2)"
  by simp

lemma emits_option [emits_intros]:
  "(x = None \<Longrightarrow> emits P m1) \<Longrightarrow> (\<And>y. x = Some y \<Longrightarrow> emits P (m2 y)) \<Longrightarrow>
     emits P (case x of None \<Rightarrow> m1 | Some y \<Rightarrow> m2 y)"
  by (cases x) auto

section \<open>The actions\<close>

lemma emits_read_file [emits_intros]: "emits P (read_file p)"
  by (rule emits_action) (auto simp: read_file_def split: sum.splits option.splits node.splits)

lemma emits_put_file: "(\<And>l. P (ev l)) \<Longrightarrow> emits P (put_file ev l s)"
  by (rule emits_action) (auto simp: put_file_def split: option.splits)

lemma emits_write_file [emits_intros]: "(\<And>l. P (WriteFile l s)) \<Longrightarrow> emits P (write_file p s)"
  by (rule emits_action)
    (auto simp: write_file_def put_file_def split: sum.splits option.splits)

lemma emits_unlink [emits_intros]: "(\<And>l. P (Unlink l)) \<Longrightarrow> emits P (unlink p)"
  by (rule emits_action) (auto simp: unlink_def split: sum.splits option.splits node.splits)

lemma emits_os_mkdir [emits_intros]: "(\<And>l. P (MkDir l)) \<Longrightarrow> emits P (os_mkdir p)"
  by (rule emits_action) (auto simp: os_mkdir_def split: sum.splits option.splits)

lemma emits_rmtree [emits_intros]: "(\<And>l. P (RmTree l)) \<Longrightarrow> emits P (rmtree p)"
  by (rule emits_action) (auto simp: rmtree_def split: sum.splits)

lemma emits_mkdir_exist_ok:
  assumes "\<And>l. P (MkDir l)" "\<And>e. emits P (retry e)"
  shows "emits P (mkdir_exist_ok p retry)"
proof -
  have "emits P (\<lambda>w. if is_dir p w then ret () w else raise e w)" for e
    by (rule emits_action) (simp add: io_simps)
  then show ?thesis unfolding mkdir_exist_ok_def
    by (intro emits_intros assms) (auto split: exn.splits intro: assms)
qed

lemma emits_mkdir_parents [emits_intros]: "(\<And>l. P (MkDir l)) \<Longrightarrow> emits P (mkdir_parents p)"
proof (induction p rule: mkdir_parents.induct)
  case (1 p)
  show ?case
    by (subst mkdir_parents.simps) (intro emits_mkdir_exist_ok emits_intros 1)
qed

lemma emits_makedirs [emits_intros]:
  assumes "\<And>l. P (MkDir l)"
  shows "emits P (makedirs p)"
proof -
  have "emits P (\<lambda>w. bind (if parts p \<noteq> [] \<and> stat (path_parent p) w = None
      then mkdir_parents (path_parent p) else ret ()) (\<lambda>_. os_mkdir p) w)"
    by (rule emits_look) (intro emits_intros assms)
  then show ?thesis by (simp add: makedirs_def [abs_def])
qed

lemma emits_copy_file [emits_intros]:
  assumes "\<And>a b. P (CopyFile a b)"
  shows "emits P (copy_file src dst)"
proof -
  have "emits P (\<lambda>w. place_file src (copy_dest src dst w) s w)" for s
    by (rule emits_action)
      (use assms in \<open>auto simp: place_file_def put_file_def split: sum.splits option.splits\<close>)
  then show ?thesis unfolding copy_file_def by (intro emits_bind emits_read_file)
qed

lemma emits_read_dir [emits_intros]: "emits P (read_dir p)"
  by (rule emits_action) (auto simp: read_dir_def split: sum.splits option.splits node.splits)

lemma emits_place_dir [emits_intros]: "(\<And>a b. P (CopyTree a b)) \<Longrightarrow> emits P (place_dir from dst n)"
  by (rule emits_action) (auto simp: place_dir_def split: sum.splits option.splits)

lemma emits_copytree [emits_intros]:
  assumes "\<And>l. P (MkDir l)" "\<And>a b. P (CopyTree a b)"
  shows "emits P (copytree src dst ign)"
  unfolding copytree_def by (auto intro!: emits_intros assms split: prod.splits)

lemma emits_run_in: "P (Run argv l inp) \<Longrightarrow> emits P (run_in e l argv inp)"
  by (rule emits_action) (auto simp: run_in_def Let_def split: prod.splits)

lemma emits_run [emits_intros]:
  assumes "\<And>l. P (Run argv l inp)"
  shows "emits P (run e dir argv inp)"
proof (rule emits_action)
  fix w
  have "snd (run_in e l argv inp w) = w \<or>
      (\<exists>ev t. P ev \<and> snd (run_in e l argv inp w) = emit ev t w)" for l
    using assms by (auto simp: run_in_def Let_def split: prod.splits)
  then show "snd (run e dir argv inp w) = w \<or> (\<exists>ev t. P ev \<and> snd (run e dir argv inp w) = emit ev t w)"
    by (auto simp: run_def split: option.splits sum.splits node.splits)
qed

lemma emits_with_tempdir [emits_intros]:
  assumes "\<And>l. P (MkTemp l)" "\<And>l. P (RmTemp l)" "\<And>d. emits P (body d)"
  shows "emits P (with_tempdir e body)"
proof -
  have "cwd (snd (with_tempdir e body w)) = cwd w \<and>
      (\<exists>evs. trace (snd (with_tempdir e body w)) = trace w @ evs \<and> list_all P evs)" for w
  proof (cases "put_at (mktemp e (tree w)) (Dir []) (tree w)")
    case (Some t1)
    let ?l = "mktemp e (tree w)"
    obtain r w2 where b: "body \<lparr>root = ''/'', parts = ?l\<rparr> (emit (MkTemp ?l) t1 w) = (r, w2)" by fastforce
    obtain evs where "trace w2 = trace (emit (MkTemp ?l) t1 w) @ evs" "list_all P evs"
      "cwd w2 = cwd (emit (MkTemp ?l) t1 w)"
      using emitsD [OF assms(3) b] .
    then show ?thesis using Some b assms(1,2) by (simp add: with_tempdir_def Let_def emit_def)
  qed (simp add: with_tempdir_def Let_def)
  then show ?thesis by (simp add: emits_def)
qed

section \<open>The operations\<close>

text \<open>Events that only run commands of \<open>git\<close>.\<close>

definition is_git :: "event \<Rightarrow> bool" where
  "is_git ev \<longleftrightarrow> (\<exists>as l inp. ev = Run (''git'' # as) l inp)"

lemma is_git_Run [simp]: "is_git (Run (''git'' # as) l inp)"
  by (simp add: is_git_def)

text \<open>The commands that record a change in the repository of the working directory, and the others,
  which ask, fetch or apply patches.\<close>

definition is_commit :: "event \<Rightarrow> bool" where
  "is_commit ev \<longleftrightarrow> (\<exists>b s as l inp. ev = Run (''git'' # ''-C'' # b # s # as) l inp \<and> s \<in> {''add'', ''commit''})"

definition is_ask :: "event \<Rightarrow> bool" where
  "is_ask ev \<longleftrightarrow> is_git ev \<and> \<not> is_commit ev"

lemma is_ask_git: "is_ask ev \<Longrightarrow> is_git ev"
  by (simp add: is_ask_def)

lemma is_ask_Run:
  "s \<noteq> ''-C'' \<Longrightarrow> is_ask (Run (''git'' # s # as) l inp)"
  "s \<notin> {''add'', ''commit''} \<Longrightarrow> is_ask (Run (''git'' # ''-C'' # b # s # as) l inp)"
  by (auto simp: is_ask_def is_commit_def)

lemma emits_asks:
  assumes "\<And>ev. is_ask ev \<Longrightarrow> P ev"
  shows "emits P (git_is_clean_workdir e p)" "emits P (clone_git_repo e url dir rv)"
    "emits P (git_get_short_rev e p rv)" "emits P (produce_shortlog e p mapping old new)"
    "emits P (apply_patch e p q)"
proof -
  have r: "emits P (run e' d (''git'' # s # as) inp)" if "s \<noteq> ''-C''" for e' d s as inp
    using that by (intro emits_run assms is_ask_Run)
  have c: "emits P (run e' d (''git'' # ''-C'' # b # s # as) inp)" if "s \<notin> {''add'', ''commit''}" for e' d b s as inp
    using that by (intro emits_run assms is_ask_Run)
  show "emits P (git_is_clean_workdir e p)"
    unfolding git_is_clean_workdir_def by (intro emits_bind emits_ret r) simp
  show "emits P (clone_git_repo e url dir rv)"
    unfolding clone_git_repo_def append.simps by (intro emits_bind emits_ret) (simp_all add: r c)
  show "emits P (git_get_short_rev e p rv)"
    unfolding git_get_short_rev_def by (intro emits_bind emits_ret c) simp
  show "emits P (apply_patch e p q)"
    unfolding apply_patch_def append.simps by (intro emits_bind emits_ret r) simp
  show "emits P (produce_shortlog e p mapping old new)"
    unfolding produce_shortlog_def Let_def append.simps
    by (intro emits_catch emits_bind emits_ret c) (auto split: exn.splits intro: emits_ret)
qed

lemma emits_run_args:
  assumes "emits P (run e None (map arg_str args) inp)"
  shows "emits P (run_args e args inp)"
  unfolding run_args_def
  by (intro emits_catch assms) (auto split: exn.splits intro: emits_raise)

lemma emits_add_commit:
  assumes "\<And>ev. is_commit ev \<Longrightarrow> P ev"
  shows "emits P (git_add_commit e ps msg)"
proof (rule emits_pointwise)
  fix w
  let ?b = "PathArg (path_str (path_parent (hd ps)))"
  have r: "emits P (run_args e' (Str ''git'' # Str ''-C'' # b # Str s # as) inp)"
    if "s \<in> {''add'', ''commit''}" for e' b s as inp
    using that by (intro emits_run_args emits_run assms) (auto simp: is_commit_def)
  have c: "emits P (bind (run_args e (Str ''git'' # Str ''-C'' # b # Str ''add'' # as) [])
      (\<lambda>_. ignore_failure (bind (run_args e (Str ''git'' # Str ''-C'' # b # Str ''commit'' # bs) msg)
        (\<lambda>_. ret ()))))"
    for b as bs
    unfolding ignore_failure_def
    by (intro emits_catch emits_bind emits_ret) (auto split: exn.splits intro: emits_ret r)
  show "\<exists>m. emits P m \<and> git_add_commit e ps msg w = m w"
  proof (cases "ps = []")
    case True
    then show ?thesis using emits_raise [of P AssertionError]
      by (intro exI [of _ "raise AssertionError"]) (simp add: git_add_commit_def)
  next
    case False
    then have "git_add_commit e ps msg w =
        bind (run_args e (Str ''git'' # Str ''-C'' # ?b # Str ''add'' #
            map (\<lambda>p. PathArg (path_str (path_resolve p w))) ps) [])
          (\<lambda>_. ignore_failure (bind (run_args e (Str ''git'' # Str ''-C'' # ?b # Str ''commit'' #
            [Str ''-s'', Str ''-F'', Str ''-'']) msg) (\<lambda>_. ret ()))) w"
      by (simp only: git_add_commit_def Let_def if_False append_Cons append_Nil simp_thms)
    then show ?thesis using c by blast
  qed
qed

lemma is_commit_git: "is_commit ev \<Longrightarrow> is_git ev"
  by (auto simp: is_commit_def)

lemma emits_git:
  assumes "\<And>ev. is_git ev \<Longrightarrow> P ev"
  shows "emits P (git_is_clean_workdir e p)" "emits P (clone_git_repo e url dir rv)"
    "emits P (git_get_short_rev e p rv)" "emits P (git_add_commit e ps msg)"
    "emits P (produce_shortlog e p mapping old new)" "emits P (apply_patch e p q)"
  by (intro emits_asks emits_add_commit assms is_ask_git is_commit_git; assumption)+

text \<open>The events of an import, and of a refresh of the patches.\<close>

definition is_import :: "event \<Rightarrow> bool" where
  "is_import ev \<longleftrightarrow> is_ask ev \<or> (case ev of
     MkDir l \<Rightarrow> True | RmTree l \<Rightarrow> True | CopyFile a b \<Rightarrow> True | CopyTree a b \<Rightarrow> True | _ \<Rightarrow> False)"

definition is_refresh :: "event \<Rightarrow> bool" where
  "is_refresh ev \<longleftrightarrow> is_ask ev \<or> (case ev of
     Unlink l \<Rightarrow> True | MkTemp l \<Rightarrow> True | RmTemp l \<Rightarrow> True | _ \<Rightarrow> False)"

lemma is_import_simps [simp]:
  "is_import (MkDir l)" "is_import (RmTree l)" "is_import (CopyFile a b)" "is_import (CopyTree a b)"
  "is_ask ev \<Longrightarrow> is_import ev" "\<not> is_import (WriteFile l s)" "\<not> is_import (Unlink l)"
  "\<not> is_import (MkTemp l)" "\<not> is_import (RmTemp l)"
  by (auto simp: is_import_def is_ask_def is_git_def)

lemma is_refresh_simps [simp]:
  "is_refresh (Unlink l)" "is_refresh (MkTemp l)" "is_refresh (RmTemp l)"
  "is_ask ev \<Longrightarrow> is_refresh ev" "\<not> is_refresh (WriteFile l s)" "\<not> is_refresh (RmTree l)"
  "\<not> is_refresh (CopyFile a b)" "\<not> is_refresh (CopyTree a b)" "\<not> is_refresh (MkDir l)"
  by (auto simp: is_refresh_def is_ask_def is_git_def)

lemma is_git_simps [simp]:
  "\<not> is_git (WriteFile l s)" "\<not> is_git (RmTree l)" "\<not> is_git (CopyFile a b)"
  "\<not> is_git (CopyTree a b)" "\<not> is_git (MkDir l)" "\<not> is_git (Unlink l)"
  "\<not> is_git (MkTemp l)" "\<not> is_git (RmTemp l)"
  by (auto simp: is_git_def)

lemma emits_apply_patches: "(\<And>ev. is_ask ev \<Longrightarrow> P ev) \<Longrightarrow> emits P (apply_patches e own dir to)"
proof (rule emits_pointwise)
  fix w
  assume P: "\<And>ev. is_ask ev \<Longrightarrow> P ev"
  have f: "emits P (for_each ps (apply_patch e to))" for ps
    by (intro emits_for_each emits_asks P)
  show "\<exists>m. emits P m \<and> apply_patches e own dir to w = m w"
  proof (cases own)
    case None
    then show ?thesis by (intro exI [of _ "ret ()"]) (simp add: apply_patches_def emits_ret)
  next
    case (Some o')
    then show ?thesis
    proof (cases dir)
      case None
      with Some show ?thesis
        by (intro exI [of _ "raise TypeError"]) (simp add: apply_patches_def emits_raise)
    next
      case (Some dd)
      with \<open>own = Some o'\<close> show ?thesis using f
        by (intro exI [of _ "for_each (sorted_patches (path_join dd o') w) (apply_patch e to)"])
          (simp add: apply_patches_def)
    qed
  qed
qed

lemma emits_copy_sources:
  assumes "\<And>l. P (MkDir l)" "\<And>a b. P (CopyFile a b)" "\<And>a b. P (CopyTree a b)"
  shows "emits P (copy_sources up from to ex)"
proof (rule emits_pointwise)
  fix w
  show "\<exists>m. emits P m \<and> copy_sources up from to ex w = m w"
  proof (cases "is_file from w")
    case True
    then show ?thesis
      by (intro exI [of _ "copy_file from to"]) (simp add: copy_sources_def emits_copy_file assms)
  next
    case False
    then show ?thesis
      by (intro exI [of _ "copytree from to (ignore_patterns (abs_str (cwd w)) (path_str up) ex)"])
        (simp add: copy_sources_def emits_copytree assms)
  qed
qed

lemma emits_import: "emits is_import (import_from_upstream e d up)"
proof -
  have "emits is_import (Mapping1_import_from_upstream e m up t ex pd)" for m t ex pd
    unfolding Mapping1_import_from_upstream_def Let_def
    by (intro emits_bind emits_mkdir_parents emits_copy_sources emits_apply_patches) simp_all
  then show ?thesis unfolding import_from_upstream_def
    by (intro emits_bind emits_rmtree emits_for_each) simp_all
qed

lemma emits_refresh: "emits is_refresh (refresh_patches e d)"
proof -
  have x: "emits is_refresh (export_patches e url dir a b)" for url dir a b
  proof -
    have g: "emits is_refresh (run e' p (''git'' # ''format-patch'' # as) inp)" for e' p as inp
      by (intro emits_run is_refresh_simps is_ask_Run) simp
    have "emits is_refresh (\<lambda>w. bind (run e (Some c)
               ([''git'', ''format-patch'', ''--no-signature'', ''--no-stat'', ''-o'',
                 path_str (path_resolve dir w),
                 ''origin/'' @ a @ ''..'' @ ''origin/'' @ b] @ quiet e) []) (\<lambda>_. ret ()) w)" for c
      unfolding append_Cons append_Nil by (rule emits_look) (intro emits_bind emits_ret g)
    then show ?thesis unfolding export_patches_def
      by (intro emits_with_tempdir emits_bind emits_asks) simp_all
  qed
  have "emits is_refresh (\<lambda>w. bind (for_each (glob dir pat w) unlink) (\<lambda>_.
                    export_patches e url dir a b) w)" for dir pat url a b
    by (rule emits_look) (intro emits_bind emits_for_each emits_unlink x is_refresh_simps)
  then show ?thesis unfolding refresh_patches_def
    by (intro emits_option emits_raise)
qed

lemma emits_load_inputs: "emits P (load_inputs e a)"
proof -
  have "emits P (load_lock e p)" for p
    unfolding load_lock_def
    by (intro emits_catch emits_bind emits_read_file emits_lift emits_ret)
      (auto split: exn.splits intro: emits_ret)
  then show ?thesis unfolding load_inputs_def
    by (intro emits_catch emits_bind emits_lift)
      (auto split: exn.splits intro: emits_ret emits_raise)
qed

lemma emits_enter_subdir: "emits P (enter_subdir d dir)"
  by (rule emits_action) (auto simp: enter_subdir_def Let_def io_simps split: option.splits)

lemma emits_check_revision: "emits P (check_revision u lock rv)"
  unfolding check_revision_def by (intro emits_option emits_if emits_ret emits_raise)

lemma emits_get_shortlog:
  assumes "\<And>ev. is_ask ev \<Longrightarrow> P ev"
  shows "emits P (get_shortlog e u d lock ch dir rv)"
  unfolding get_shortlog_def
  by (intro emits_option emits_if emits_ret emits_bind emits_asks emits_lift assms)

lemma emits_commit_changes:
  assumes "\<And>ev. is_git ev \<Longrightarrow> P ev"
  shows "emits P (commit_changes e a d lp dir rv sl)"
  unfolding commit_changes_def
  by (intro emits_if emits_bind emits_option emits_ret emits_raise emits_git assms)

lemma emits_check_clean:
  assumes "\<And>ev. is_ask ev \<Longrightarrow> P ev"
  shows "emits P (check_clean e a d)"
  unfolding check_clean_def
  by (intro emits_if emits_bind emits_ret emits_raise emits_asks assms)

end
