(* ===== verification/ConfigFacts.thy ===== *)
theory ConfigFacts
  imports Config "HOL-Library.Sublist"
begin

text \<open>
  What the configuration classes promise: the fields a constructor reads, the confinement of
  mapping paths, the invariant of a \<open>Desc\<close>, the effect of overrides, and which exceptions a
  bad configuration can raise.
\<close>

section \<open>Fields\<close>

lemma get_field_Some:
  "get_field pth wh (JDict d) name ty opt c = Inr (Some x) \<longleftrightarrow>
     (\<exists>v. dict_get d name = Some v \<and> v \<noteq> JNull \<and> isinstance v ty \<and> c v = Inr x)"
  by (auto simp: get_field_def res_simps split: option.splits json.splits if_splits)

lemma get_field_None:
  "get_field pth wh (JDict d) name ty opt c = Inr None \<longleftrightarrow>
     opt \<and> (dict_get d name = None \<or> dict_get d name = Some JNull)"
  by (auto simp: get_field_def res_simps split: option.splits json.splits if_splits)

lemma get_field_not_dict:
  "(\<forall>d. data \<noteq> JDict d) \<Longrightarrow> get_field pth wh data name ty opt c = Inl AttributeError"
  by (cases data) (simp_all add: get_field_def)

lemma get_field_dict: "get_field pth wh data name ty opt c = Inr r \<Longrightarrow> \<exists>d. data = JDict d"
  by (cases data) (simp_all add: get_field_def)

text \<open>A required field is never \<open>None\<close>.\<close>

lemma required_Inr_iff [res_simps]: "required m = Inr x \<longleftrightarrow> m = Inr (Some x)"
  by (auto simp: required_def res_simps split: option.splits)

lemma get_field_required: "get_field pth wh data name ty False c \<noteq> Inr None"
  by (auto simp: get_field_def res_simps split: option.splits json.splits if_splits)

lemma as_str_Inr_iff [res_simps]: "as_str v = Inr s \<longleftrightarrow> v = JStr s"
  by (cases v) auto

lemma as_list_Inr_iff [res_simps]: "as_list v = Inr l \<longleftrightarrow> v = JList l"
  by (cases v) auto

text \<open>Reading a string field, and what can go wrong in it.\<close>

lemma get_str_Some:
  "get_field pth wh (JDict d) name TStr opt as_str = Inr (Some x) \<longleftrightarrow> dict_get d name = Some (JStr x)"
  by (auto simp: get_field_Some res_simps)

definition json_error :: "exn \<Rightarrow> bool" where
  "json_error e \<longleftrightarrow> (\<exists>pth m. e = JsonError pth m)"

lemma json_error_simps [simp]: "json_error (JsonError pth m)"
  by (simp add: json_error_def)

lemma get_field_error:
  assumes "get_field pth wh (JDict d) name ty opt c = Inl e"
    and "\<And>v e'. isinstance v ty \<Longrightarrow> c v = Inl e' \<Longrightarrow> json_error e'"
  shows "json_error e"
  using assms(1)
  by (auto simp: get_field_def res_simps split: option.splits json.splits if_splits
      dest: assms(2))

lemma required_error:
  assumes "required (get_field pth wh (JDict d) name ty False c) = Inl e"
    and "\<And>v e'. isinstance v ty \<Longrightarrow> c v = Inl e' \<Longrightarrow> json_error e'"
  shows "json_error e"
  using assms get_field_error [of pth wh d name ty False c e]
    get_field_required [of pth wh "JDict d" name ty c]
  by (auto simp: required_def res_simps split: option.splits)

lemma as_str_error: "isinstance v TStr \<Longrightarrow> as_str v \<noteq> Inl e"
  by auto

section \<open>Upstream and PatchRepo\<close>

lemma Upstream_Inr_iff:
  "Upstream pth (JDict d) = Inr u \<longleftrightarrow>
     dict_get d ''url'' = Some (JStr (u_url u)) \<and> dict_get d ''rev'' = Some (JStr (u_rev u)) \<and>
     (case u_only_subdir u of
        None \<Rightarrow> dict_get d ''only_subdir'' = None \<or> dict_get d ''only_subdir'' = Some JNull
      | Some s \<Rightarrow> dict_get d ''only_subdir'' = Some (JStr s))"
  unfolding Upstream_def Let_def
  by (cases u) (auto simp: res_simps get_str_Some get_field_None split: option.splits)

lemma Upstream_error: "Upstream pth (JDict d) = Inl e \<Longrightarrow> json_error e"
  unfolding Upstream_def Let_def
  by (auto simp: res_simps dest!: required_error get_field_error)

lemma PatchRepo_error: "PatchRepo pth (JDict d) = Inl e \<Longrightarrow> json_error e"
  unfolding PatchRepo_def Let_def
  by (auto simp: res_simps dest!: required_error)

section \<open>Mapping paths\<close>

text \<open>A relative path that only goes down.\<close>

definition rel_clean :: "path \<Rightarrow> bool" where
  "rel_clean p \<longleftrightarrow> root p = [] \<and> list_all clean (parts p)"

lemma rel_clean_dot [simp]: "rel_clean (mk_path ''.'')"
  by (simp add: rel_clean_def mk_path_def initial_slashes_def)

lemma get_path_Some:
  assumes "get_path pth idx data name opt = Inr (Some q)"
  obtains d raw where "data = JDict d" "dict_get d name = Some (JStr raw)"
    "\<not> startswith raw ''/''" "\<not> startswith (normpath raw) ''..''" "q = mk_path (normpath raw)"
proof -
  have "\<exists>d. data = JDict d"
    using assms by (auto simp: get_path_def res_simps dest: get_field_dict)
  then show ?thesis using assms that
    by (auto simp: get_path_def res_simps get_str_Some Let_def split: option.splits if_splits)
qed

lemma get_path_confined:
  assumes "get_path pth idx (JDict d) name opt = Inr (Some q)"
  shows "rel_clean q \<and> (\<exists>raw. dict_get d name = Some (JStr raw) \<and>
    (\<forall>b. walk b (split_on (CHR ''/'') raw) = rev (parts q) @ b))"
proof -
  obtain raw where raw: "dict_get d name = Some (JStr raw)" "\<not> startswith raw ''/''"
    "\<not> startswith (normpath raw) ''..''" "q = mk_path (normpath raw)"
    using assms by (rule get_path_Some) auto
  have q: "root q = []" "parts q = norm_comps raw" using raw by (simp_all add: mk_path_normpath)
  have "list_all clean (norm_comps raw)" using raw by (intro norm_comps_clean)
  then show ?thesis using q raw by (auto simp: rel_clean_def walk_clean simp flip: norm_comps_walk)
qed

lemma get_path_error: "get_path pth idx (JDict d) name opt = Inl e \<Longrightarrow> json_error e"
  by (auto simp: get_path_def res_simps Let_def split: option.splits if_splits dest!: get_field_error)

lemma get_path_None: "get_path pth idx data name False \<noteq> Inr None"
  by (auto simp: get_path_def res_simps Let_def split: option.splits if_splits
      simp: get_field_required)

definition mapping1_ok :: "mapping1 \<Rightarrow> bool" where
  "mapping1_ok m \<longleftrightarrow> rel_clean (from_path m) \<and> rel_clean (to_path m) \<and>
     (case m_patch_dir m of None \<Rightarrow> True | Some p \<Rightarrow> rel_clean p)"

lemma Mapping1_make_fields:
  assumes "Mapping1_make pth idx data = Inr m"
  obtains d where "data = JDict d"
    "get_path pth idx data ''from'' False = Inr (Some (from_path m))"
    "get_path pth idx data ''to'' False = Inr (Some (to_path m))"
    "get_path pth idx data ''patch_dir'' True = Inr (m_patch_dir m)"
  using assms that by (auto simp: Mapping1_make_def res_simps split: if_splits)

lemma Mapping1_make_ok: "Mapping1_make pth idx data = Inr m \<Longrightarrow> mapping1_ok m"
  by (erule Mapping1_make_fields)
    (auto simp: mapping1_ok_def split: option.splits dest: get_path_confined)

lemma Mapping1_make_error: "Mapping1_make pth idx (JDict d) = Inl e \<Longrightarrow> json_error e"
  using get_path_None [of pth idx "JDict d"]
  by (auto simp: Mapping1_make_def res_simps required_def split: option.splits
      dest: get_path_error)

lemma Mapping_items_ok: "Mapping_items pth idx l = Inr ms \<Longrightarrow> list_all mapping1_ok ms"
  by (induction pth idx l arbitrary: ms rule: Mapping_items.induct)
    (auto simp: res_simps split: if_splits dest: Mapping1_make_ok)

lemma Mapping_items_error: "Mapping_items pth idx l = Inl e \<Longrightarrow> json_error e"
  by (induction pth idx l rule: Mapping_items.induct)
    (auto simp: res_simps split: if_splits dest: Mapping1_make_error)

lemma Mapping_make_error: "isinstance v TList \<Longrightarrow> Mapping_make pth v = Inl e \<Longrightarrow> json_error e"
  by (auto simp: Mapping_make_def dest: Mapping_items_error)

lemma Mapping1_make_default_ok [simp]: "mapping1_ok (Mapping1_make_default b)"
  by (simp add: mapping1_ok_def Mapping1_make_default_def)

section \<open>The description\<close>

definition desc_inv :: "desc \<Rightarrow> bool" where
  "desc_inv d \<longleftrightarrow>
     (d_patch_repo d \<noteq> None \<longrightarrow> d_patch_dir d \<noteq> None \<and> d_mapping d = None) \<and>
     (\<forall>items. d_mapping d = Some items \<longrightarrow>
        list_all mapping1_ok items \<and> (has_patch_dir items \<longleftrightarrow> d_patch_dir d \<noteq> None)) \<and>
     ''.git'' \<in> set (d_exclude d) \<and> path_wf (d_path d) \<and> path_wf (d_target_dir d) \<and>
     (\<forall>p. d_patch_dir d = Some p \<longrightarrow> path_wf p)"

lemma check_desc_Inr:
  "check_desc pth pdir repo mapping = Inr u \<longleftrightarrow>
     (repo \<noteq> None \<longrightarrow> pdir \<noteq> None \<and> mapping = None) \<and>
     (\<forall>items. mapping = Some items \<longrightarrow> (has_patch_dir items \<longleftrightarrow> pdir \<noteq> None))"
  by (auto simp: check_desc_def res_simps split: option.splits)

lemma check_desc_error: "check_desc pth pdir repo mapping = Inl e \<Longrightarrow> json_error e"
  by (auto simp: check_desc_def res_simps split: option.splits if_splits)

lemma check_exclude_error: "check_exclude pth efus = Inl e \<Longrightarrow> json_error e"
  unfolding check_exclude_def
  by (induction efus) (auto simp: res_simps split: json.splits)

lemma check_exclude_append:
  "check_exclude pth (xs @ ys) =
     rbind (check_exclude pth xs) (\<lambda>as. rbind (check_exclude pth ys) (\<lambda>bs. Inr (as @ bs)))"
  unfolding check_exclude_def
proof (induction xs)
  case Nil
  show ?case by (cases "rmap (\<lambda>efu. case efu of JStr s \<Rightarrow> Inr s
    | _ \<Rightarrow> Inl (JsonError pth (ExcludeNotString efu))) ys") simp_all
next
  case (Cons x xs)
  then show ?case by (cases x) (auto simp: rbind_def split: sum.splits)
qed

lemma check_exclude_strs: "check_exclude pth (map JStr ss) = Inr ss"
  unfolding check_exclude_def by (induction ss) auto

lemma check_exclude_git:
  "check_exclude pth (l @ map JStr EXCLUDE_ALWAYS) = Inr ss \<Longrightarrow> ''.git'' \<in> set ss"
  by (auto simp: check_exclude_append check_exclude_strs EXCLUDE_ALWAYS_def res_simps
      simp del: list.map)

text \<open>The fields of a \<open>Desc\<close>, read off its constructor.\<close>

lemma required_dict:
  "required (get_field pth wh data name ty False c) = Inr x \<Longrightarrow> \<exists>d. data = JDict d"
  by (auto simp: res_simps dest: get_field_dict)

lemma mapping_field_ok:
  "get_field pth wh (JDict dd) name TList opt (Mapping_make pth) = Inr (Some ms) \<Longrightarrow>
   list_all mapping1_ok ms"
  by (auto simp: get_field_Some Mapping_make_def dest: Mapping_items_ok)

lemma Desc_fields:
  assumes "Desc loads h ovs = Inr d"
  obtains data0 dd where
    "desc_name_ok (h_name h)" "loads (h_text h) = Inr data0"
    "apply_overrides data0 ovs = Inr (JDict dd)"
    "d_path d = mk_path (h_name h)"
    "dict_get dd ''name'' = Some (JStr (d_name d))"
    "\<exists>t. d_target_dir d = path_join (path_parent (d_path d)) (mk_path t)
       \<and> dict_get dd ''target_dir'' = Some (JStr t)"
    "\<exists>u. dict_get dd ''upstream'' = Some (JDict u)
       \<and> Upstream (path_str (d_path d)) (JDict u) = Inr (d_upstream d)"
    "\<forall>p. d_patch_dir d = Some p \<longrightarrow> (\<exists>t. p = path_join (path_parent (d_path d)) (mk_path t))"
    "\<forall>ms. d_mapping d = Some ms \<longrightarrow> list_all mapping1_ok ms"
    "check_desc (path_str (d_path d)) (d_patch_dir d) (d_patch_repo d) (d_mapping d) = Inr ()"
    "''.git'' \<in> set (d_exclude d)"
  using assms
  apply (clarsimp simp: Desc_def Let_def rbind_Inr_iff split: if_splits)
  apply (frule required_dict)
  apply (clarsimp simp: required_Inr_iff get_field_Some as_str_Inr_iff)
  subgoal premises prems for data0 nm ups pdir prepo excl mapping exclude dd t u
  proof (rule that [of data0 dd])
    show "\<forall>p. d_patch_dir d = Some p \<longrightarrow> (\<exists>t. p = path_join (path_parent (d_path d)) (mk_path t))"
      using prems(2-) by (cases pdir) (auto simp: get_field_Some res_simps)
    show "\<forall>ms. d_mapping d = Some ms \<longrightarrow> list_all mapping1_ok ms"
      using prems(2-) by (auto dest: mapping_field_ok)
    show "''.git'' \<in> set (d_exclude d)"
      using prems(2-) by (auto dest: check_exclude_git)
  qed (use prems(2-) in auto)
  done

lemma Desc_inv: "Desc loads h ovs = Inr d \<Longrightarrow> desc_inv d"
  by (erule Desc_fields) (auto simp: desc_inv_def check_desc_Inr)

section \<open>Overrides\<close>

text \<open>The value at a dotted position of a document.\<close>

fun json_at :: "string list \<Rightarrow> json \<Rightarrow> json option" where
  "json_at [] v = Some v"
| "json_at (k # ks) (JDict d) = (case dict_get d k of None \<Rightarrow> None | Some r \<Rightarrow> json_at ks r)"
| "json_at (k # ks) _ = None"

lemma json_at_empty [simp]: "json_at (k # ks) (JDict []) = None"
  by simp

lemma override_at_same: "override_at ks v ref = Inr ref' \<Longrightarrow> json_at ks ref' = Some v"
  by (induction ks v ref arbitrary: ref' rule: override_at.induct) (auto simp: res_simps)

lemma override_at_other:
  "override_at ks v ref = Inr ref' \<Longrightarrow> \<not> prefix ks js \<Longrightarrow> \<not> prefix js ks
   \<Longrightarrow> json_at js ref' = json_at js ref"
proof (induction ks v ref arbitrary: ref' js rule: override_at.induct)
  case (2 k v d)
  then show ?case by (cases js) auto
next
  case (3 k k' ks v d)
  then obtain r where r: "override_at (k' # ks) v
      (case dict_get d k of None \<Rightarrow> JDict [] | Some r \<Rightarrow> r) = Inr r"
    "ref' = JDict (dict_set k r d)" by (auto simp: res_simps)
  show ?case
  proof (cases js)
    case (Cons j js')
    show ?thesis
    proof (cases "j = k")
      case True
      with "3.prems" Cons have np: "\<not> prefix (k' # ks) js'" "\<not> prefix js' (k' # ks)" by auto
      then have "json_at js' r = json_at js' (case dict_get d k of None \<Rightarrow> JDict [] | Some r \<Rightarrow> r)"
        using "3.IH" [OF r(1)] by blast
      with Cons True r np show ?thesis by (cases js') (auto split: option.splits)
    next
      case False
      with Cons r show ?thesis by simp
    qed
  qed (use "3.prems" in auto)
qed auto

text \<open>An override succeeds exactly when nothing but dictionaries stands on its way.\<close>

definition open_path :: "string list \<Rightarrow> json \<Rightarrow> bool" where
  "open_path ks ref \<longleftrightarrow>
     (\<forall>i<length ks. case json_at (take i ks) ref of None \<Rightarrow> True | Some r \<Rightarrow> isinstance r TDict)"

lemma open_path_Cons:
  "open_path (k # ks) (JDict d) \<longleftrightarrow>
     open_path ks (case dict_get d k of None \<Rightarrow> JDict [] | Some r \<Rightarrow> r)"
proof -
  have "open_path (k # ks) (JDict d) \<longleftrightarrow>
    (\<forall>i<length ks. case json_at (k # take i ks) (JDict d) of None \<Rightarrow> True | Some r \<Rightarrow> isinstance r TDict)"
    by (simp add: open_path_def All_less_Suc2)
  also have "\<dots> \<longleftrightarrow> open_path ks (case dict_get d k of None \<Rightarrow> JDict [] | Some r \<Rightarrow> r)"
  proof (cases "dict_get d k")
    case None
    have "json_at (take i ks) (JDict []) = (if i = 0 \<or> ks = [] then Some (JDict []) else None)" for i
      by (cases ks; cases i) auto
    with None show ?thesis by (auto simp: open_path_def)
  qed (simp add: open_path_def)
  finally show ?thesis .
qed

lemma open_path_not_dict: "(\<forall>d. ref \<noteq> JDict d) \<Longrightarrow> \<not> open_path (k # ks) ref"
  unfolding open_path_def by (intro notI) (drule spec [of _ 0], auto)

lemma override_at_cases:
  "ks \<noteq> [] \<Longrightarrow>
     (if open_path ks ref then \<exists>ref'. override_at ks v ref = Inr ref'
      else override_at ks v ref = Inl TypeError)"
proof (induction ks v ref rule: override_at.induct)
  case (2 k v d)
  then show ?case by (simp add: open_path_Cons) (simp add: open_path_def)
next
  case (3 k k' ks v d)
  then show ?case by (simp add: open_path_Cons [of k]) (auto split: if_splits)
qed (auto simp: open_path_not_dict)

lemma apply_overrides_append:
  "apply_overrides data (xs @ ys) = rbind (apply_overrides data xs) (\<lambda>d. apply_overrides d ys)"
  by (induction data xs rule: apply_overrides.induct) (auto simp: rbind_def split: sum.splits)

lemma split_dot_eq: "split_on (CHR ''.'') (a @ ''.'' @ b) = a # split_on (CHR ''.'') b" if "CHR ''.'' \<notin> set a"
  using split_on_append_sep [OF that, of b] by simp

end
