(* ===== verification/ConfigProps.thy ===== *)
theory ConfigProps
  imports ConfigFacts
begin

text \<open>
  The properties of the configuration of \<open>vendor.py\<close>, each with a witness on a concrete
  document where it has hypotheses.
\<close>

section \<open>Mapping paths stay inside their directory\<close>

text \<open>C11: the paths of an accepted mapping entry are relative, have no dot components, and
  denote, from every directory, exactly the place below it that the written path denotes: an
  entry can never name anything outside the upstream checkout or the target directory.\<close>

theorem Mapping1_make_confined:
  assumes "Mapping1_make pth idx (JDict d) = Inr m"
    and "(name, Some p) \<in> {(''from'', Some (from_path m)), (''to'', Some (to_path m)),
           (''patch_dir'', m_patch_dir m)}"
  shows "root p = [] \<and> list_all clean (parts p) \<and>
    (\<exists>raw. dict_get d name = Some (JStr raw) \<and>
       (\<forall>b. walk b (split_on (CHR ''/'') raw) = rev (parts p) @ b))"
proof -
  obtain opt where "get_path pth idx (JDict d) name opt = Inr (Some p)"
    using assms by (auto elim!: Mapping1_make_fields)
  then show ?thesis using get_path_confined by (auto simp: rel_clean_def)
qed

definition ex_entry :: "(string \<times> json) list" where
  "ex_entry = [(''from'', JStr ''hw/./ip/x/../prim''), (''to'', JStr ''ip/prim//''),
     (''patch_dir'', JStr ''.'')]"

lemma ex_entry_made:
  "Mapping1_make ''d'' 0 (JDict ex_entry) =
     Inr \<lparr>from_path = \<lparr>root = [], parts = [''hw'', ''ip'', ''prim'']\<rparr>,
          to_path = \<lparr>root = [], parts = [''ip'', ''prim'']\<rparr>,
          m_patch_dir = Some \<lparr>root = [], parts = []\<rparr>\<rparr>"
  by code_simp

theorem Mapping1_make_confined_witness:
  "list_all clean [''hw'', ''ip'', ''prim''] \<and>
   (\<exists>raw. dict_get ex_entry ''from'' = Some (JStr raw) \<and>
      (\<forall>b. walk b (split_on (CHR ''/'') raw) = rev [''hw'', ''ip'', ''prim''] @ b))"
  using Mapping1_make_confined [OF ex_entry_made, of "''from''" "\<lparr>root = [], parts = [''hw'', ''ip'', ''prim'']\<rparr>"]
  by simp

text \<open>C17: what \<open>get_path\<close> does with a path that is present: it refuses an absolute path and
  a path whose first normalised component begins with two dots, with the error that names the
  entry, and otherwise gives the normalised components.\<close>

theorem get_path_decides:
  assumes "dict_get d name = Some (JStr raw)"
  shows "get_path pth idx (JDict d) name opt =
    (if startswith raw ''/'' \<or> (norm_comps raw \<noteq> [] \<and> startswith (hd (norm_comps raw)) ''..'')
     then Inl (JsonError pth (BadMappingPath (idx + 1) name))
     else Inr (Some \<lparr>root = [], parts = norm_comps raw\<rparr>))"
proof -
  have "get_field pth wh (JDict d) name TStr opt as_str = Inr (Some raw)" for wh
    using assms by (simp add: get_str_Some)
  then show ?thesis
    by (auto simp: get_path_def Let_def normpath_startswith_dots mk_path_normpath)
qed

theorem get_path_decides_witness:
  "get_path ''d'' 0 (JDict [(''to'', JStr ''a/../../b'')]) ''to'' False =
     Inl (JsonError ''d'' (BadMappingPath 1 ''to''))"
proof -
  have "dict_get [(''to'', JStr ''a/../../b'')] ''to'' = Some (JStr ''a/../../b'')" by simp
  moreover have "norm_comps ''a/../../b'' = [''..'', ''b'']" by code_simp
  ultimately show ?thesis using get_path_decides [of _ "''to''" "''a/../../b''" "''d''" 0 False]
    by simp
qed

text \<open>The test \<open>val.startswith('..')\<close> refuses too much: a path whose first component only
  begins with two dots, such as a directory called \<open>..data\<close>, stays inside its directory and is
  refused all the same.\<close>

lemma get_path_refuses_dotted_names:
  assumes "c = ''..'' @ x" "x \<noteq> []" "list_all clean (c # cs)"
    and "dict_get d name = Some (JStr (join_with ''/'' (c # cs)))"
  shows "get_path pth idx (JDict d) name opt = Inl (JsonError pth (BadMappingPath (idx + 1) name))
    \<and> walk b (split_on (CHR ''/'') (join_with ''/'' (c # cs))) = rev (c # cs) @ b"
proof -
  let ?raw = "join_with ''/'' (c # cs)"
  have sp: "split_on (CHR ''/'') ?raw = c # cs"
    using assms(3) by (intro split_on_join) (auto simp: list_all_iff cleanD)
  have "\<not> startswith ?raw ''/''" using assms(1) by (cases cs) auto
  then have z: "\<not> 0 < initial_slashes ?raw" by (simp add: initial_slashes_pos)
  have "norm_loop False acc ds = rev acc @ ds" if "list_all clean ds" for acc ds
    using that by (induction ds arbitrary: acc) (auto simp: cleanD)
  from this [OF assms(3), of "[]"] have "norm_comps ?raw = c # cs"
    using z unfolding norm_comps_def sp by simp
  then show ?thesis
    using get_path_decides [OF assms(4)] assms(1,2,3) sp by (simp add: walk_clean)
qed

section \<open>The description\<close>

text \<open>C15: every \<open>Desc\<close> that is constructed satisfies the invariant the rest of the program
  relies on: a patch repository comes with a patch directory and without a mapping, with a
  mapping there is a patch directory exactly when some entry uses one, all mapping paths are
  confined, and \<open>.git\<close> is excluded.\<close>

theorem Desc_establishes_invariant:
  assumes "Desc loads h ovs = Inr d"
  shows "(d_patch_repo d \<noteq> None \<longrightarrow> d_patch_dir d \<noteq> None \<and> d_mapping d = None)
    \<and> (\<forall>items. d_mapping d = Some items \<longrightarrow>
         list_all mapping1_ok items \<and> (has_patch_dir items \<longleftrightarrow> d_patch_dir d \<noteq> None))
    \<and> ''.git'' \<in> set (d_exclude d)"
  using Desc_inv [OF assms] by (simp add: desc_inv_def)

definition ex_doc :: json where
  "ex_doc = JDict
     [(''name'', JStr ''ip''), (''target_dir'', JStr ''ip''),
      (''upstream'', JDict [(''url'', JStr ''u''), (''rev'', JStr ''r'')]),
      (''mapping'', JList [JDict [(''from'', JStr ''a''), (''to'', JStr ''b/c'')]])]"

definition ex_handle :: handle where
  "ex_handle = \<lparr>h_name = ''v/ip.vendor.hjson'', h_text = []\<rparr>"

definition ex_desc :: "string \<Rightarrow> desc" where
  "ex_desc r = \<lparr>d_path = \<lparr>root = [], parts = [''v'', ''ip.vendor.hjson'']\<rparr>, d_name = ''ip'',
     d_target_dir = \<lparr>root = [], parts = [''v'', ''ip'']\<rparr>,
     d_upstream = \<lparr>u_url = ''u'', u_rev = r, u_only_subdir = None\<rparr>,
     d_patch_dir = None, d_patch_repo = None, d_exclude = [''.git''],
     d_mapping = Some [\<lparr>from_path = \<lparr>root = [], parts = [''a'']\<rparr>,
       to_path = \<lparr>root = [], parts = [''b'', ''c'']\<rparr>, m_patch_dir = None\<rparr>]\<rparr>"

lemma desc_name_ok_ex: "desc_name_ok (h_name ex_handle)"
  by (simp add: desc_name_ok_def ex_handle_def vendor_suffix_later.simps newline_def)

lemma ex_desc_made:
  "Desc (\<lambda>_. Inr ex_doc) ex_handle [] = Inr (ex_desc ''r'')"
  "Desc (\<lambda>_. Inr ex_doc) ex_handle [(''upstream.rev'', ''new'')] = Inr (ex_desc ''new'')"
  by code_simp+

theorem Desc_establishes_invariant_witness:
  "list_all mapping1_ok (the (d_mapping (ex_desc ''r''))) \<and> ''.git'' \<in> set (d_exclude (ex_desc ''r''))"
  using Desc_establishes_invariant [OF ex_desc_made(1)] by (simp add: ex_desc_def)

text \<open>A document that is valid Hjson but not a dictionary (a list, a string) is not
  reported: reading its first field raises \<open>AttributeError\<close>, which the main program does not
  catch.\<close>

lemma Desc_of_non_dict_crashes:
  assumes "loads (h_text h) = Inr data" "\<forall>dd. data \<noteq> JDict dd" "desc_name_ok (h_name h)"
  shows "Desc loads h [] = Inl AttributeError"
  using assms by (simp add: Desc_def Let_def required_def get_field_not_dict)

text \<open>C36: the file name test accepts exactly the names with \<open>.vendor.hjson\<close> somewhere after a
  nonempty first line prefix: nothing anchors the suffix at the end of the name.\<close>

theorem desc_name_ok_iff:
  "desc_name_ok s \<longleftrightarrow>
     (\<exists>a b. s = a @ ''.vendor.hjson'' @ b \<and> a \<noteq> [] \<and> newline \<notin> set a)"
proof -
  have later: "vendor_suffix_later t \<longleftrightarrow> (\<exists>a b. t = a @ ''.vendor.hjson'' @ b \<and> newline \<notin> set a)" for t
  proof (induction t)
    case Nil
    then show ?case by (simp add: vendor_suffix_later.simps)
  next
    case (Cons c t)
    show ?case
      unfolding occurs_Cons [of c t] Cons.IH [symmetric] startswith_iff [symmetric]
      by (subst vendor_suffix_later.simps) simp
  qed
  show ?thesis
  proof (cases s)
    case (Cons c cs)
    show ?thesis unfolding Cons occurs_later_Cons
      by (simp add: desc_name_ok_def later)
  qed (simp add: desc_name_ok_def)
qed

text \<open>C37: the lock file of a description \<open>stem.vendor.hjson\<close> is \<open>stem.lock.hjson\<close> in the same
  directory, so two descriptions of a directory never share a lock file.\<close>

theorem lock_file_path_of_stem:
  assumes "parts (d_path d) = dirs @ [stem @ ''.vendor.hjson'']" "CHR ''/'' \<notin> set stem"
  shows "lock_file_path d = Inr ((d_path d)\<lparr>parts := dirs @ [stem @ ''.lock.hjson'']\<rparr>)"
proof -
  have "rev (stem @ ''.vendor.hjson'') = ''nosjh'' @ CHR ''.'' # ''rodnev'' @ CHR ''.'' # rev stem"
    by simp
  then have "split_max 2 (CHR ''.'') (rev (stem @ ''.vendor.hjson''))
      = [''nosjh'', ''rodnev'', rev stem]"
    by (simp only: numeral_2_eq_2) (subst split_max_append, simp, subst split_max_append, simp, simp)
  then have "rsplit_max 2 (CHR ''.'') (stem @ ''.vendor.hjson'') = [stem, ''vendor'', ''hjson'']"
    by (simp add: rsplit_max_def)
  then show ?thesis
    using assms by (simp add: lock_file_path_def path_name_def with_name_def)
qed

theorem lock_file_path_of_stem_witness:
  "lock_file_path (ex_desc ''r'') = Inr \<lparr>root = [], parts = [''v'', ''ip.lock.hjson'']\<rparr>"
  using lock_file_path_of_stem [of "ex_desc ''r''" "[''v'']" "''ip''"] by (simp add: ex_desc_def)

section \<open>Overrides\<close>

text \<open>C25: an override of a dotted key stores the value at that position, leaves every position
  that is neither above nor below it as it was, and fails, with \<open>TypeError\<close>, exactly when a value
  that is not a dictionary stands on the way.\<close>

theorem override_at_updates:
  assumes "ks \<noteq> []"
  shows "if open_path ks ref
    then \<exists>ref'. override_at ks v ref = Inr ref' \<and> json_at ks ref' = Some v \<and>
      (\<forall>js. \<not> prefix ks js \<longrightarrow> \<not> prefix js ks \<longrightarrow> json_at js ref' = json_at js ref)
    else override_at ks v ref = Inl TypeError"
  using override_at_cases [OF assms, of ref v] override_at_same override_at_other
  by (metis (full_types))

theorem override_at_updates_witness:
  "override_at [''upstream'', ''rev''] (JStr ''x'') (JDict [(''upstream'', JStr ''u'')]) = Inl TypeError"
proof -
  have "\<not> open_path [''upstream'', ''rev''] (JDict [(''upstream'', JStr ''u'')])"
    by (simp add: open_path_def All_less_Suc2 numeral_2_eq_2)
  then show ?thesis
    using override_at_updates [of "[''upstream'', ''rev'']" "JDict [(''upstream'', JStr ''u'')]" "JStr ''x''"]
    by simp
qed

text \<open>The last override of \<open>upstream.rev\<close> (or \<open>upstream.url\<close>) on the command line is what the
  description holds, whatever the file says.\<close>

lemma Desc_override_upstream:
  assumes "Desc loads h (ovs @ [(''upstream.'' @ k, v)]) = Inr d" "k = ''rev'' \<or> k = ''url''"
  shows "(if k = ''rev'' then u_rev (d_upstream d) else u_url (d_upstream d)) = v"
proof -
  obtain data0 dd u where d: "apply_overrides data0 (ovs @ [(''upstream.'' @ k, v)]) = Inr (JDict dd)"
    "dict_get dd ''upstream'' = Some (JDict u)"
    "Upstream (path_str (d_path d)) (JDict u) = Inr (d_upstream d)"
    using assms(1) by (elim Desc_fields) auto
  have "split_on (CHR ''.'') (''upstream.'' @ k) = [''upstream'', k]"
    using assms(2) by auto
  then obtain data1 where "override_at [''upstream'', k] (JStr v) data1 = Inr (JDict dd)"
    using d(1) by (auto simp: apply_overrides_append res_simps)
  then have "json_at [''upstream'', k] (JDict dd) = Some (JStr v)" by (rule override_at_same)
  then show ?thesis using d assms(2) by (auto simp: Upstream_Inr_iff split: option.splits)
qed

text \<open>C35: an override argument is accepted exactly when it has one equals sign, with an overridable
  key before it once the white space is stripped; in particular no value can contain an equals
  sign.\<close>

theorem define_arg_type_accepts:
  "define_arg_type arg = Inr (k, v) \<longleftrightarrow>
     (\<exists>a b. arg = a @ ''='' @ b \<and> CHR ''='' \<notin> set a \<and> CHR ''='' \<notin> set b \<and>
        strip a = k \<and> strip b = v \<and> k \<in> set OVERRIDABLE_DESC_KEYS)"
proof (cases "CHR ''='' \<in> set arg")
  case False
  then show ?thesis by (auto simp: define_arg_type_def split_max_free)
next
  case True
  then obtain a b where ab: "arg = a @ CHR ''='' # b" "CHR ''='' \<notin> set a"
    by (metis split_list_first)
  show ?thesis
  proof (cases "CHR ''='' \<in> set b")
    case False
    then have "split_max 2 (CHR ''='') arg = [a, b]"
      using ab by (simp add: numeral_2_eq_2 split_max_append split_max_free del: split_max.simps)
    then show ?thesis using ab False by (auto simp: define_arg_type_def first_sep_ex)
  next
    case eq: True
    then obtain b1 b2 where b: "b = b1 @ CHR ''='' # b2" "CHR ''='' \<notin> set b1"
      by (metis split_list_first)
    then have "split_max 2 (CHR ''='') arg = [a, b1, b2]"
      using ab by (simp add: numeral_2_eq_2 split_max_append del: split_max.simps(2))
    then show ?thesis using ab eq by (auto simp: define_arg_type_def first_sep_ex)
  qed
qed

section \<open>Round trip\<close>

text \<open>C32: reading back the dictionary that \<open>as_dict\<close> writes gives the same upstream, so the lock
  file records it completely.\<close>

theorem Upstream_as_dict: "Upstream pth (as_dict u) = Inr u"
  by (auto simp: as_dict_def Let_def Upstream_Inr_iff split: option.splits)

end
