(* ===== verification/VendorProps.thy ===== *)
theory VendorProps
  imports Effects ConfigProps
begin

text \<open>
  What the main program of \<open>vendor.py\<close> promises of its order: what it checks first, and what an update
  writes and when.
\<close>

section \<open>An example run\<close>

text \<open>A working directory with a description and its lock file, a temporary directory, and a \<open>git\<close>
  whose clone holds one file.\<close>

definition ex_git :: "string \<Rightarrow> command" where
  "ex_git status argv l inp t =
     (if argv ! 1 = ''clone''
      then case put_at [''tmp'', ''x''] (Dir [(''a'', Dir [(''f'', File ''text'')])]) t of
             None \<Rightarrow> (1, [], [], t) | Some t' \<Rightarrow> (0, [], [], t')
      else if argv ! 1 = ''status'' then (0, status, [], t)
      else (0, ''abc'', [], t))"

definition ex_env :: "string \<Rightarrow> env" where
  "ex_env status = \<lparr>ext = ex_git status, mktemp = (\<lambda>t. [''tmp'', ''x'']), hjson_loads = (\<lambda>s. Inr ex_doc),
     hjson_dumps = (\<lambda>j. ''{}''), chunks = (\<lambda>s. [s]), verbose = False\<rparr>"

definition ex_world :: world where
  "ex_world = \<lparr>tree = Dir [(''w'', Dir [(''v'', Dir [(''ip.lock.hjson'', File [])])]), (''tmp'', Dir [])],
     cwd = [''w''], trace = []\<rparr>"

text \<open>The same with the description in a file, and a command line that updates and commits.\<close>

definition ex_full :: world where
  "ex_full = ex_world\<lparr>tree := Dir [(''w'', Dir [(''v'', Dir [(''ip.vendor.hjson'', File []),
     (''ip.lock.hjson'', File [])])]), (''tmp'', Dir [])]\<rparr>"

definition ex_commit_line :: cmdline where
  "ex_commit_line = \<lparr>c_update = True, c_refresh = False, c_commit = True, c_overrides = [],
     c_file = ''v/ip.vendor.hjson''\<rparr>"

definition ex_args :: "bool \<Rightarrow> bool \<Rightarrow> args" where
  "ex_args update commit = \<lparr>a_update = update, a_refresh = False, a_commit = commit, a_overrides = [],
     a_desc_file = ex_handle\<rparr>"

definition ex_lock :: path where
  "ex_lock = \<lparr>root = [], parts = [''v'', ''ip.lock.hjson'']\<rparr>"

lemma ex_load: "load_inputs (ex_env s) (ex_args u c) ex_world =
    (Inr (ex_desc ''r'', ex_lock, Some (d_upstream (ex_desc ''r''))), ex_world)"
proof -
  have "Desc (hjson_loads (ex_env s)) (a_desc_file (ex_args u c)) (a_overrides (ex_args u c)) = Inr (ex_desc ''r'')"
    using ex_desc_made(1) by (simp add: ex_env_def ex_args_def)
  moreover have "lock_file_path (ex_desc ''r'') = Inr ex_lock" by code_simp
  moreover have "read_file ex_lock ex_world = (Inr [], ex_world)" by code_simp
  moreover have "LockDesc (hjson_loads (ex_env s)) \<lparr>h_name = path_str ex_lock, h_text = []\<rparr>
      = Inr (d_upstream (ex_desc ''r''))"
    unfolding ex_env_def by code_simp
  ultimately show ?thesis
    by (simp add: load_inputs_def load_lock_def catch_def io_simps)
qed

section \<open>What is loaded\<close>

lemma emits_cwd: "m w = (r, w') \<Longrightarrow> emits P m \<Longrightarrow> cwd w' = cwd w"
  by (metis emits_def snd_conv)

lemma load_inputs_Inr:
  assumes "load_inputs e a w = (Inr (d, lp, lock), w1)"
  shows "Desc (hjson_loads e) (a_desc_file a) (a_overrides a) = Inr d \<and> lock_file_path d = Inr lp"
  using assms
  by (auto simp: load_inputs_def catch_def bind_def lift_def ret_def raise_def
      split: sum.splits prod.splits option.splits exn.splits)

lemma load_inputs_wf:
  assumes "load_inputs e a w = (Inr (d, lp, lock), w1)"
  shows "desc_inv d \<and> path_wf lp"
proof -
  have "desc_inv d" using load_inputs_Inr [OF assms] Desc_inv by blast
  moreover have "path_wf lp" if "path_wf (d_path d)"
    using load_inputs_Inr [OF assms] with_name_wf [OF that] by (auto simp: lock_file_path_def Let_def)
  ultimately show ?thesis by (simp add: desc_inv_def)
qed

section \<open>The locked mode\<close>

text \<open>A run is determined stage by stage.\<close>

lemma vendor_loaded:
  assumes "load_inputs e a w = (Inr (d, lp, lock), w1)"
  shows "vendor e a w =
    bind (check_clean e a d) (\<lambda>_.
    bind (if a_refresh a then refresh_patches e (resolve_upstream a d lock) else ret ()) (\<lambda>_.
    with_tempdir e (fetch e a (resolve_upstream a d lock) lp lock (changed_url d lock)))) w1"
  using assms by (simp add: vendor_def bind_def Let_def)

lemma load_inputs_world: "load_inputs e a w = (r, w1) \<Longrightarrow> trace w1 = trace w \<and> cwd w1 = cwd w"
proof -
  assume "load_inputs e a w = (r, w1)"
  then obtain evs where "trace w1 = trace w @ evs" "list_all (\<lambda>ev. False) evs" "cwd w1 = cwd w"
    by (rule emitsD [OF emits_load_inputs])
  then show ?thesis by (cases evs) auto
qed

lemma emits_vendor_rest:
  assumes "\<And>ev. is_refresh ev \<Longrightarrow> P ev"
    and "\<And>dir. emits P (fetch e a (resolve_upstream a d lock) lp lock ch dir)"
  shows "emits P (bind (check_clean e a d) (\<lambda>_.
    bind (if a_refresh a then refresh_patches e (resolve_upstream a d lock) else ret ()) (\<lambda>_.
    with_tempdir e (fetch e a (resolve_upstream a d lock) lp lock ch))))"
  by (intro emits_bind emits_check_clean emits_if emits_ret emits_with_tempdir
      emits_mono [OF emits_refresh] assms) simp_all

text \<open>C8: in the locked mode the revision that is fetched is the one of the lock file, whatever the
  description says; when the clone ends at a different revision, the program stops with exit
  status 1 or an error of a command, before it touches the target directory.\<close>

theorem locked_run_checks_revision:
  assumes "load_inputs e a w = (Inr (d, lp, Some u), w1)" "\<not> a_update a"
    and "\<And>dir w rv w'. clone_git_repo e (u_url u) dir (u_rev u) w = (Inr rv, w') \<Longrightarrow> rv \<noteq> u_rev u"
  shows "fst (vendor e a w) \<noteq> Inr () \<and>
    (\<exists>evs. trace (snd (vendor e a w)) = trace w @ evs \<and> list_all is_refresh evs)"
proof -
  let ?d = "resolve_upstream a d (Some u)"
  have d: "d_upstream ?d = u" using assms(2) by (simp add: resolve_upstream_def updating_def)
  have stop: "fetch e a ?d lp (Some u) ch dir =
      bind (clone_git_repo e (u_url u) dir (u_rev u)) (\<lambda>_. raise (SystemExit 1))" for ch dir
    by (rule ext) (use assms(2,3) in \<open>auto simp: fetch_def Let_def updating_def d check_revision_def
        bind_def raise_def split: prod.splits sum.splits\<close>)
  have em: "emits is_refresh (fetch e a ?d lp (Some u) ch dir)" for ch dir
    unfolding stop by (intro emits_bind emits_asks emits_raise) simp
  have "fst (fetch e a ?d lp (Some u) ch dir w2) \<noteq> Inr ()" for ch dir w2
    unfolding stop by (auto simp: bind_def raise_def split: prod.splits sum.splits)
  then have "fst (with_tempdir e (fetch e a ?d lp (Some u) ch) w2) \<noteq> Inr ()" for ch w2
    by (auto simp: with_tempdir_def Let_def split: option.splits prod.splits) (metis fst_conv)
  then have no: "fst (vendor e a w) \<noteq> Inr ()"
    unfolding vendor_loaded [OF assms(1)]
    by (auto simp: bind_def split: prod.splits sum.splits)
  have "\<exists>evs. trace (snd (vendor e a w)) = trace w1 @ evs \<and> list_all is_refresh evs"
    unfolding vendor_loaded [OF assms(1)] using em
    by (intro emits_trace emits_vendor_rest) simp_all
  then show ?thesis using no load_inputs_world [OF assms(1)] by auto
qed

lemma ex_clone:
  assumes "clone_git_repo (ex_env s) url dir rv w = (Inr x, w')"
  shows "x = ''abc''"
proof -
  have "strip ''abc'' = ''abc''" by code_simp
  then show ?thesis using assms
    by (auto simp: clone_git_repo_def bind_Inr_iff run_def run_in_def ex_env_def ex_git_def ret_def
        split: if_splits option.splits)
qed

lemma ex_clone_ne: "clone_git_repo (ex_env s) url dir rv w = (Inr ''r'', w') \<Longrightarrow> False"
  using ex_clone by fastforce

theorem locked_run_checks_revision_witness:
  "fst (vendor (ex_env []) (ex_args False False) ex_world) \<noteq> Inr () \<and>
    (\<exists>evs. trace (snd (vendor (ex_env []) (ex_args False False) ex_world)) = trace ex_world @ evs
       \<and> list_all is_refresh evs)"
  by (rule locked_run_checks_revision [OF ex_load])
    (auto simp: ex_args_def ex_desc_def dest: ex_clone_ne)

section \<open>Committing\<close>

text \<open>Output that is all white space is nothing.\<close>

lemma bytes_strip_Nil: "bytes_strip s = [] \<longleftrightarrow> (\<forall>c\<in>set s. bytes_space c)"
proof
  assume "bytes_strip s = []"
  then have "\<forall>c\<in>set (dropWhile bytes_space s). bytes_space c"
    by (simp add: bytes_strip_def dropWhile_eq_Nil_conv)
  then have "dropWhile bytes_space s = []" using hd_dropWhile [of bytes_space s] hd_in_set by blast
  then show "\<forall>c\<in>set s. bytes_space c" by (simp add: dropWhile_eq_Nil_conv)
next
  assume "\<forall>c\<in>set s. bytes_space c"
  then have "dropWhile bytes_space s = []" unfolding dropWhile_eq_Nil_conv .
  then show "bytes_strip s = []" by (simp only: bytes_strip_def rev.simps dropWhile.simps)
qed

text \<open>C24: with \<open>--commit\<close>, the program runs \<open>git status\<close> in the directory of the description. When that
  succeeds and prints anything but white space, which is a change of a tracked file, the program ends
  with exit status 1 and has done nothing else; when it prints nothing, the check is passed.\<close>

theorem commit_needs_clean_workdir:
  assumes "load_inputs e a w = (Inr (d, lp, lock), w1)" "a_commit a"
    and "locate (path_parent (d_path d)) w1 = Inr l" "is_directory (node_at l (tree w1))"
    and "ext e [''git'', ''status'', ''--untracked-files=no'', ''--porcelain''] l [] (tree w1) = (0, out, err, t)"
  defines "w2 \<equiv> emit (Run [''git'', ''status'', ''--untracked-files=no'', ''--porcelain''] l []) t w1"
  shows "if \<exists>c\<in>set out. \<not> bytes_space c then vendor e a w = (Inl (SystemExit 1), w2)
    else check_clean e a d w1 = (Inr (), w2)"
proof -
  have "git_is_clean_workdir e (path_parent (d_path d)) w1 = (Inr (\<forall>c\<in>set out. bytes_space c), w2)"
    using assms(3-5)
    by (auto simp: git_is_clean_workdir_def bind_def run_def run_in_def Let_def ret_def w2_def bytes_strip_Nil
        is_directory_iff)
  then have "check_clean e a d w1 =
      (if \<exists>c\<in>set out. \<not> bytes_space c then (Inl (SystemExit 1), w2) else (Inr (), w2))"
    using assms(2) by (auto simp: check_clean_def bind_def raise_def ret_def)
  then show ?thesis unfolding vendor_loaded [OF assms(1)] by (simp add: bind_def)
qed

theorem commit_needs_clean_workdir_witness:
  "fst (vendor (ex_env '' M f'') (ex_args True True) ex_world) = Inl (SystemExit 1)"
proof -
  let ?git = "[''git'', ''status'', ''--untracked-files=no'', ''--porcelain'']"
  have "locate (path_parent (d_path (ex_desc ''r''))) ex_world = Inr [''w'', ''v'']"
    "is_directory (node_at [''w'', ''v''] (tree ex_world))" by code_simp+
  moreover have "ext (ex_env '' M f'') ?git [''w'', ''v''] [] (tree ex_world) = (0, '' M f'', [], tree ex_world)"
    by (simp add: ex_env_def ex_git_def)
  moreover have "\<exists>c\<in>set '' M f''. \<not> bytes_space c" by (simp add: bytes_space_def code_def)
  moreover have "a_commit (ex_args True True)" by (simp add: ex_args_def)
  ultimately show ?thesis
    using commit_needs_clean_workdir [OF ex_load] by (metis (no_types, lifting) fst_conv)
qed

section \<open>Updating\<close>

lemma fetch_successE:
  assumes "fetch e a d lp lock ch dir w = (Inr (), w')"
  obtains rv sub sl w1 w2 w3 w4 w5 w6 where
    "clone_git_repo e (u_url (d_upstream d)) dir (u_rev (d_upstream d)) w = (Inr rv, w1)"
    "check_revision (updating a lock) lock rv w1 = (Inr (), w2)"
    "enter_subdir d dir w2 = (Inr sub, w3)"
    "import_from_upstream e d sub w3 = (Inr (), w4)"
    "get_shortlog e (updating a lock) d lock ch sub rv w4 = (Inr sl, w5)"
    "write_lock e (updating a lock) d lp rv w5 = (Inr (), w6)"
    "commit_changes e a d lp sub rv sl w6 = (Inr (), w')"
  using assms unfolding fetch_def Let_def bind_Inr_iff by clarsimp

lemma write_file_trace:
  "write_file p s w = (Inr (), w') \<Longrightarrow>
     \<exists>l. locate p w = Inr l \<and> trace w' = trace w @ [WriteFile l s] \<and> node_at l (tree w') = Some (File s)"
  by (auto simp: write_file_def put_file_def emit_def fs.get_put_same
      split: sum.splits option.splits if_splits)

lemma with_tempdir_Inr:
  assumes "with_tempdir e body w = (Inr x, w')"
  obtains l t1 w2 where "body \<lparr>root = ''/'', parts = l\<rparr> (emit (MkTemp l) t1 w) = (Inr x, w2)"
    "w' = emit (RmTemp l) (del_at l (tree w2)) w2" "l = mktemp e (tree w)"
  using assms by (auto simp: with_tempdir_def Let_def split: option.splits prod.splits)

lemma vendor_successE:
  assumes "load_inputs e a w = (Inr (d, lp, lock), w1)" "vendor e a w = (Inr (), w')"
  obtains l t1 w2 w3 w4 where
    "check_clean e a d w1 = (Inr (), w2)"
    "(if a_refresh a then refresh_patches e (resolve_upstream a d lock) else ret ()) w2 = (Inr (), w3)"
    "fetch e a (resolve_upstream a d lock) lp lock (changed_url d lock) \<lparr>root = ''/'', parts = l\<rparr>
       (emit (MkTemp l) t1 w3) = (Inr (), w4)"
    "w' = emit (RmTemp l) (del_at l (tree w4)) w4" "l = mktemp e (tree w3)"
  using assms(2) unfolding vendor_loaded [OF assms(1)] bind_Inr_iff
  by (auto elim!: with_tempdir_Inr)

text \<open>What a program that succeeds adds to the trace, one stage after the other.\<close>

lemma emits_step: "m w = (r, w') \<Longrightarrow> emits P m \<Longrightarrow> \<exists>evs. trace w' = trace w @ evs \<and> list_all P evs"
  using emits_trace [of P m w] by simp

definition before_lock :: "event \<Rightarrow> bool" where
  "before_lock ev \<longleftrightarrow> (\<forall>l s. ev \<noteq> WriteFile l s)"

text \<open>The commands of the commit, and the removal of the temporary directory.\<close>

definition commit_event :: "event \<Rightarrow> bool" where
  "commit_event ev \<longleftrightarrow> is_commit ev
     \<or> (\<exists>dir rv l. ev = Run [''git'', ''-C'', dir, ''rev-parse'', ''--short'', rv] l [])"

definition after_lock :: "args \<Rightarrow> event \<Rightarrow> bool" where
  "after_lock a ev \<longleftrightarrow> a_commit a \<and> commit_event ev \<or> (\<exists>l. ev = RmTemp l)"

lemma emits_commit_event: "emits commit_event (commit_changes e a d lp dir rv sl)"
proof -
  have "emits commit_event (git_get_short_rev e' p r)" for e' p r
    unfolding git_get_short_rev_def
    by (intro emits_bind emits_ret emits_run) (auto simp: commit_event_def)
  then show ?thesis unfolding commit_changes_def
    by (intro emits_if emits_bind emits_option emits_ret emits_raise emits_add_commit)
      (simp_all add: commit_event_def)
qed

lemma before_lock_events: "is_refresh ev \<or> is_import ev \<or> is_git ev \<Longrightarrow> before_lock ev"
  by (auto simp: before_lock_def)

lemma fetch_update_trace:
  assumes "fetch e a d lp lock ch dir w = (Inr (), w')" "updating a lock" "path_wf lp"
  shows "\<exists>rv evs1 evs2 w1. clone_git_repo e (u_url (d_upstream d)) dir (u_rev (d_upstream d)) w = (Inr rv, w1)
    \<and> trace w' = trace w @ evs1 @ [WriteFile (place (cwd w) lp) (lock_text e (d_upstream d) rv)] @ evs2
    \<and> list_all before_lock evs1 \<and> list_all commit_event evs2 \<and> (a_commit a \<or> evs2 = []) \<and> cwd w' = cwd w"
  using assms(1)
proof (rule fetch_successE)
  fix rv sub sl w1 w2 w3 w4 w5 w6
  assume st: "clone_git_repo e (u_url (d_upstream d)) dir (u_rev (d_upstream d)) w = (Inr rv, w1)"
    "check_revision (updating a lock) lock rv w1 = (Inr (), w2)"
    "enter_subdir d dir w2 = (Inr sub, w3)"
    "import_from_upstream e d sub w3 = (Inr (), w4)"
    "get_shortlog e (updating a lock) d lock ch sub rv w4 = (Inr sl, w5)"
    "write_lock e (updating a lock) d lp rv w5 = (Inr (), w6)"
    "commit_changes e a d lp sub rv sl w6 = (Inr (), w')"
  let ?any = "\<lambda>_ :: event. True"
  have b: "is_git ev \<Longrightarrow> before_lock ev" "is_import ev \<Longrightarrow> before_lock ev" for ev
    by (simp_all add: before_lock_events)
  have em4: "emits before_lock (import_from_upstream e d sub)"
    by (rule emits_mono [OF emits_import]) (rule b(2))
  obtain a1 where 1: "trace w1 = trace w @ a1" "list_all before_lock a1"
    using emits_step [OF st(1) emits_git(2) [where P = before_lock]] b by blast
  obtain a2 where 2: "trace w2 = trace w1 @ a2" "list_all before_lock a2"
    using emits_step [OF st(2) emits_check_revision [where P = before_lock]] by blast
  obtain a3 where 3: "trace w3 = trace w2 @ a3" "list_all before_lock a3"
    using emits_step [OF st(3) emits_enter_subdir [where P = before_lock]] by blast
  obtain a4 where 4: "trace w4 = trace w3 @ a4" "list_all before_lock a4"
    using emits_step [OF st(4) em4] by blast
  obtain a5 where 5: "trace w5 = trace w4 @ a5" "list_all before_lock a5"
    using emits_step [OF st(5) emits_get_shortlog [where P = before_lock]] b is_ask_git by blast
  have c5: "cwd w5 = cwd w"
    using emits_cwd [OF st(1) emits_git(2) [where P = ?any]]
      emits_cwd [OF st(2) emits_check_revision [where P = ?any]]
      emits_cwd [OF st(3) emits_enter_subdir [where P = ?any]] emits_cwd [OF st(4) emits_import]
      emits_cwd [OF st(5) emits_get_shortlog [where P = ?any]] by simp
  have wl: "write_file lp (lock_text e (d_upstream d) rv) w5 = (Inr (), w6)"
    using st(6) assms(2) by (simp add: write_lock_def)
  then have 6: "trace w6 = trace w5 @ [WriteFile (place (cwd w) lp) (lock_text e (d_upstream d) rv)]"
    using write_file_trace [OF wl] locate_place [OF assms(3), of w5] c5 by auto
  obtain a7 where 7: "trace w' = trace w6 @ a7" "list_all commit_event a7"
    using emits_step [OF st(7) emits_commit_event] by blast
  have "a_commit a \<or> a7 = []" using st(7) 7(1)
    by (cases "a_commit a") (simp_all add: commit_changes_def ret_def)
  moreover have "trace w' = trace w @ (a1 @ a2 @ a3 @ a4 @ a5)
      @ [WriteFile (place (cwd w) lp) (lock_text e (d_upstream d) rv)] @ a7"
    using 1 2 3 4 5 6 7 by simp
  moreover have "list_all before_lock (a1 @ a2 @ a3 @ a4 @ a5)" using 1 2 3 4 5 by simp
  moreover have "cwd w' = cwd w"
    using emits_cwd [OF st(7) emits_commit_event] emits_cwd [OF wl emits_write_file [where P = ?any]] c5
    by simp
  ultimately show ?thesis using st(1) 7(2) by blast
qed

text \<open>C9: a run that updates and succeeds writes exactly one file: at the place of the lock file, with the
  upstream of the description and the revision the clone ended at. Every change of the target
  directory comes before it; after it come the commit's commands, with \<open>--commit\<close> only, and the removal
  of the temporary directory.\<close>

theorem update_records_revision:
  assumes "load_inputs e a w = (Inr (d, lp, lock), w1)" "updating a lock" "vendor e a w = (Inr (), w')"
  shows "\<exists>rv evs1 evs2 dir w2 w3.
    clone_git_repo e (u_url (d_upstream d)) dir (u_rev (d_upstream d)) w2 = (Inr rv, w3)
    \<and> trace w' = trace w @ evs1 @ [WriteFile (place (cwd w) lp) (lock_text e (d_upstream d) rv)] @ evs2
    \<and> list_all before_lock evs1 \<and> list_all (after_lock a) evs2"
  using assms(1,3)
proof (rule vendor_successE)
  fix l t1 w2 w3 w4
  let ?refresh = "if a_refresh a then refresh_patches e (resolve_upstream a d lock) else ret ()"
  assume st: "check_clean e a d w1 = (Inr (), w2)" "?refresh w2 = (Inr (), w3)"
    "fetch e a (resolve_upstream a d lock) lp lock (changed_url d lock) \<lparr>root = ''/'', parts = l\<rparr>
       (emit (MkTemp l) t1 w3) = (Inr (), w4)"
    "w' = emit (RmTemp l) (del_at l (tree w4)) w4"
  have d: "resolve_upstream a d lock = d"
    using assms(2) by (cases lock) (simp_all add: resolve_upstream_def)
  have em: "emits before_lock ?refresh"
    by (intro emits_if emits_ret emits_mono [OF emits_refresh]) (simp add: before_lock_events)
  have em1: "emits before_lock (check_clean e a d)"
    by (intro emits_check_clean) (simp add: before_lock_events)
  obtain a1 where 1: "trace w2 = trace w1 @ a1" "list_all before_lock a1"
    using emits_step [OF st(1) em1] by blast
  obtain a2 where 2: "trace w3 = trace w2 @ a2" "list_all before_lock a2"
    using emits_step [OF st(2) em] by blast
  have c3: "cwd (emit (MkTemp l) t1 w3) = cwd w"
    using emits_cwd [OF st(1) em1] emits_cwd [OF st(2) em] load_inputs_world [OF assms(1)] by simp
  from fetch_update_trace [OF st(3) assms(2)] load_inputs_wf [OF assms(1)] obtain rv b1 b2 w5 where
    3: "clone_git_repo e (u_url (d_upstream d)) \<lparr>root = ''/'', parts = l\<rparr> (u_rev (d_upstream d))
          (emit (MkTemp l) t1 w3) = (Inr rv, w5)"
    "trace w4 = trace (emit (MkTemp l) t1 w3) @ b1
       @ [WriteFile (place (cwd w) lp) (lock_text e (d_upstream d) rv)] @ b2"
    "list_all before_lock b1" "list_all commit_event b2" "a_commit a \<or> b2 = []"
    unfolding d c3 by blast
  have "trace w' = trace w @ (a1 @ a2 @ [MkTemp l] @ b1)
      @ [WriteFile (place (cwd w) lp) (lock_text e (d_upstream d) rv)] @ (b2 @ [RmTemp l])"
    using 1 2 3 st(4) load_inputs_world [OF assms(1)] by (simp add: emit_def)
  moreover have "list_all before_lock (a1 @ a2 @ [MkTemp l] @ b1)"
    using 1 2 3 by (simp add: before_lock_def)
  moreover have "list_all (after_lock a) (b2 @ [RmTemp l])"
    using 3(4,5) by (auto simp: after_lock_def list_all_iff)
  ultimately show ?thesis using 3(1) by blast
qed

lemma ex_update_ok:
  "vendor (ex_env []) (ex_args True True) ex_world =
     (Inr (), snd (vendor (ex_env []) (ex_args True True) ex_world))"
proof -
  have "fst (vendor (ex_env []) (ex_args True True) ex_world) = Inr ()" by code_simp
  then show ?thesis by (metis prod.collapse)
qed

theorem update_records_revision_witness:
  "\<exists>rv evs1 evs2.
     trace (snd (vendor (ex_env []) (ex_args True True) ex_world)) = evs1
       @ [WriteFile [''w'', ''v'', ''ip.lock.hjson''] (lock_text (ex_env []) (d_upstream (ex_desc ''r'')) rv)] @ evs2
     \<and> list_all before_lock evs1 \<and> list_all (after_lock (ex_args True True)) evs2"
proof -
  have "updating (ex_args True True) (Some (d_upstream (ex_desc ''r'')))"
    by (simp add: updating_def ex_args_def)
  moreover have "place (cwd ex_world) ex_lock = [''w'', ''v'', ''ip.lock.hjson'']" "trace ex_world = []"
    by (simp_all add: place_def ex_world_def ex_lock_def)
  ultimately show ?thesis using update_records_revision [OF ex_load _ ex_update_ok] by auto
qed

end
