(* ===== verification/CopyTreeProps.thy ===== *)
theory CopyTreeProps
  imports CopyTree Config
begin

text \<open>Which files the copy holds, and what the exclusion that is always in force removes.\<close>

text \<open>C10: a file is in the copy exactly when it is in the directory that is copied and no pattern
  matches its path from the base, or that of a directory on the way to it; its content is the
  same.\<close>

theorem copied_files:
  assumes "names_clean n" "list_all clean (base @ from)" "base \<noteq> []"
  shows "node_at ps (copy_node (ignore_patterns cwd (abs_str base) patterns) (abs_str (base @ from)) n)
      = Some (File s) \<longleftrightarrow>
    node_at ps n = Some (File s) \<and> \<not> excluded patterns from ps"
proof -
  have fileeq: "copy_node ign path m = File s \<longleftrightarrow> m = File s" for ign path m
    by (cases m) auto
  show ?thesis unfolding node_at_copy [OF assms refl] by (auto simp: fileeq)
qed

definition ex_tree :: node where
  "ex_tree = Dir [(''a.c'', File ''int a;''), (''.git'', Dir [(''HEAD'', File ''ref'')]),
     (''doc'', Dir [(''b.md'', File ''text'')])]"

theorem copied_files_witness:
  "node_at [''a.c''] (copy_node (ignore_patterns [] (abs_str [''t'']) [''*.md'', ''.git''])
       (abs_str ([''t''] @ [])) ex_tree) = Some (File ''int a;'') \<longleftrightarrow>
     node_at [''a.c''] ex_tree = Some (File ''int a;'') \<and>
     \<not> excluded [''*.md'', ''.git''] [] [''a.c'']"
  by (rule copied_files) (simp_all add: ex_tree_def clean_iff)

text \<open>C34: the exclusion that is always added removes the \<open>.git\<close> at the top of the base directory
  and nothing else: one further down, as a submodule has it, is copied.\<close>

theorem exclude_always_top_only:
  assumes "names_clean n" "list_all clean base" "base \<noteq> []" "node_at ps n \<noteq> None"
  shows "node_at ps (copy_node (ignore_patterns cwd (abs_str base) EXCLUDE_ALWAYS) (abs_str base) n) = None
    \<longleftrightarrow> ps \<noteq> [] \<and> hd ps = ''.git''"
proof -
  have lit: "literal ''.git''" by (simp add: literal_def)
  have cl: "list_all clean ps" using assms(1,4) by (rule node_at_names_clean)
  have "fnmatch (join_with ''/'' (take k ps)) ''.git'' \<longleftrightarrow> k = 1 \<and> hd ps = ''.git''"
    if "k \<in> {1..length ps}" for k
  proof -
    have "list_all clean (take k ps)" "take k ps \<noteq> []" using cl that
      by (auto simp: list_all_iff dest: in_set_takeD)
    then have "join_with ''/'' (take k ps) = ''.git'' \<longleftrightarrow> take k ps = [''.git'']"
      using join_with_one_iff [of "take k ps" "''.git''"] by (simp add: clean_iff)
    then show ?thesis unfolding fnmatch_literal [OF lit] using that by (cases ps) (auto simp: take_Cons')
  qed
  then have "excluded EXCLUDE_ALWAYS [] ps \<longleftrightarrow> ps \<noteq> [] \<and> hd ps = ''.git''"
    by (cases ps) (auto simp: excluded_def EXCLUDE_ALWAYS_def)
  then show ?thesis using node_at_copy [OF assms(1), of base "[]" _ cwd EXCLUDE_ALWAYS ps] assms
    by auto
qed

theorem exclude_always_top_only_witness:
  "node_at [''.git'', ''HEAD''] (copy_node (ignore_patterns [] (abs_str [''t'']) EXCLUDE_ALWAYS)
     (abs_str [''t'']) ex_tree) = None \<longleftrightarrow> [''.git'', ''HEAD''] \<noteq> [] \<and> hd [''.git'', ''HEAD''] = ''.git''"
  by (rule exclude_always_top_only) (simp_all add: ex_tree_def clean_iff)

end
