(* ===== verification/ImportProps.thy ===== *)
theory ImportProps
  imports WorldFacts VendorProps CopyTreeProps
begin

text \<open>
  What \<open>import_from_upstream\<close> leaves in the target directory: for every entry of the mapping, the
  files of its source that are not excluded, and nothing else changes.
\<close>

definition unrelated :: "'a list \<Rightarrow> 'a list \<Rightarrow> bool" where
  "unrelated p q \<longleftrightarrow> \<not> prefix p q \<and> \<not> prefix q p"

lemma unrelated_sym: "unrelated p q \<Longrightarrow> unrelated q p"
  by (simp add: unrelated_def)

lemma unrelated_append: "unrelated p q \<Longrightarrow> unrelated (p @ x) (q @ y)"
  unfolding unrelated_def by (metis append_prefixD prefix_append prefix_same_cases prefixI)

text \<open>One entry: the state its import needs, and the state it leaves.\<close>

definition ready :: "loc \<Rightarrow> path \<Rightarrow> string list \<Rightarrow> world \<Rightarrow> bool" where
  "ready dl td ts w \<longleftrightarrow> loc_of td w @ ts = dl \<and> node_at dl (tree w) = None \<and> way_free dl w
     \<and> is_directory (node_at (rev (start_dir td w)) (tree w))"

definition placed :: "loc \<Rightarrow> node \<Rightarrow> world \<Rightarrow> world \<Rightarrow> bool" where
  "placed dl n w w' \<longleftrightarrow> cwd w' = cwd w \<and> node_at dl (tree w') = Some n
     \<and> (\<forall>q. unrelated dl q \<longrightarrow> node_at q (tree w') = node_at q (tree w))
     \<and> (\<forall>q. strict_prefix q dl \<longrightarrow> is_directory (node_at q (tree w')))"

lemma path_join_rel: "root b = [] \<Longrightarrow> path_join a b = a\<lparr>parts := parts a @ parts b\<rparr>"
  by (simp add: path_join_def)

text \<open>The copy of one source, a file or a directory.\<close>

lemma copy_sources_new:
  assumes "clean_path src" "node_at (loc_of src w) (tree w) = Some n"
    and "clean_path dst" "parts dst \<noteq> []" "node_at (loc_of dst w) (tree w) = None"
    and "is_directory (node_at (butlast (loc_of dst w)) (tree w))"
  shows "\<exists>w'. copy_sources up src dst excl w = (Inr (), w')
    \<and> placed (loc_of dst w)
        (copy_node (ignore_patterns (abs_str (cwd w)) (path_str up) excl) (path_str src) n) w w'"
proof -
  have st: "stat src w = Some n" using locate_clean_exists [OF assms(1), of w] assms(2) by (simp add: stat_def)
  let ?ign = "ignore_patterns (abs_str (cwd w)) (path_str up) excl"
  show ?thesis
  proof (cases n)
    case (File s)
    then show ?thesis
      using copy_file_new [OF assms(1) _ assms(3-6), of s] assms(2) st
      by (auto simp: copy_sources_def is_file_def placed_def unrelated_def)
  next
    case (Dir es)
    then show ?thesis
      using copytree_new [OF assms(1) _ assms(3-6), of es ?ign] assms(2) st
      by (auto simp: copy_sources_def is_file_def placed_def unrelated_def)
  qed
qed

lemma placed_extended:
  assumes "extended (butlast dl) w w1" "placed dl n w1 w2"
  shows "placed dl n w w2"
proof -
  have "node_at q (tree w1) = node_at q (tree w)" if "unrelated dl q" for q
  proof -
    have "\<not> prefix q (butlast dl)"
      using that by (metis prefix_order.trans prefixeq_butlast unrelated_def)
    then show ?thesis using assms(1) by (simp add: extended_def)
  qed
  then show ?thesis using assms by (simp add: placed_def extended_def)
qed

lemma import_entry:
  assumes "m_patch_dir m = None" "mapping1_ok m" "list_all clean bs" "bs \<noteq> []"
    and "node_at (bs @ parts (from_path m)) (tree w) = Some n"
    and "clean_path td" "parts td \<noteq> []"
    and "ready dl td (parts (to_path m)) w" "\<not> prefix (bs @ parts (from_path m)) dl"
  shows "\<exists>w'. Mapping1_import_from_upstream e m \<lparr>root = ''/'', parts = bs\<rparr> td excl pd w = (Inr (), w')
    \<and> placed dl (copy_node (ignore_patterns (abs_str (cwd w)) (abs_str bs) excl)
                   (abs_str (bs @ parts (from_path m))) n) w w'"
proof -
  let ?fs = "parts (from_path m)" and ?ts = "parts (to_path m)"
  have m: "root (from_path m) = []" "list_all clean ?fs" "root (to_path m) = []" "list_all clean ?ts"
    using assms(2) by (simp_all add: mapping1_ok_def rel_clean_def)
  define src where "src = \<lparr>root = ''/'', parts = bs @ ?fs\<rparr>"
  define dst where "dst = td\<lparr>parts := parts td @ ?ts\<rparr>"
  have joins: "path_join \<lparr>root = ''/'', parts = bs\<rparr> (from_path m) = src" "path_join td (to_path m) = dst"
    using m by (simp_all add: path_join_rel src_def dst_def)
  have src: "clean_path src" "path_str src = abs_str (bs @ ?fs)" "loc_of src v = bs @ ?fs" for v
    using assms(3,4) m by (simp_all add: src_def clean_path_def path_str_def abs_str_def loc_of_def start_dir_def)
  have dst: "clean_path dst" "parts dst \<noteq> []" "start_dir dst v = start_dir td v"
    "loc_of dst v = loc_of td v @ ?ts" for v
    using assms(6,7) m by (simp_all add: dst_def clean_path_def loc_of_def start_dir_def)
  have dl: "loc_of dst w = dl" "node_at dl (tree w) = None" "way_free dl w"
    "is_directory (node_at (rev (start_dir td w)) (tree w))"
    using assms(8) dst(4) by (auto simp: ready_def)
  have par: "loc_of (path_parent dst) w = butlast dl" "start_dir (path_parent dst) w = start_dir td w"
    using loc_of_parent [OF dst(2), of w] dl(1) dst(3) by (simp_all add: start_dir_def path_parent_def)
  obtain w1 where w1: "mkdir_parents (path_parent dst) w = (Inr (), w1)" "extended (butlast dl) w w1"
    "is_directory (node_at (butlast dl) (tree w1))"
    using mkdir_parents_ok [OF clean_path_parent [OF dst(1)], of w] way_free_butlast [OF dl(3)] dl(4)
    unfolding par by blast
  have l1: "loc_of dst w1 = dl" using w1(2) dl(1) loc_of_cwd [of w1 w dst] by (simp add: extended_def)
  have ne: "dl \<noteq> []" using dl(1) dst(2) by (auto simp: loc_of_def)
  have nb: "\<not> prefix dl (butlast dl)"
    using ne prefix_length_le [of dl "butlast dl"] by (cases dl) auto
  have s1: "node_at (bs @ ?fs) (tree w1) = Some n"
  proof -
    have "\<not> prefix (bs @ ?fs) (butlast dl)"
      using assms(9) by (metis prefix_order.trans prefixeq_butlast)
    then show ?thesis using w1(2) assms(5) by (simp add: extended_def)
  qed
  have d1: "node_at dl (tree w1) = None" using w1(2) dl(2) nb by (simp add: extended_def)
  have "cwd w1 = cwd w" "path_str \<lparr>root = ''/'', parts = bs\<rparr> = abs_str bs"
    using w1(2) by (simp_all add: extended_def path_str_def abs_str_def)
  with copy_sources_new [OF src(1) _ dst(1,2), of w1 n "\<lparr>root = ''/'', parts = bs\<rparr>" excl] s1 d1 w1(3)
  obtain w2 where w2: "copy_sources \<lparr>root = ''/'', parts = bs\<rparr> src dst excl w1 = (Inr (), w2)"
    "placed dl (copy_node (ignore_patterns (abs_str (cwd w)) (abs_str bs) excl) (abs_str (bs @ ?fs)) n) w1 w2"
    unfolding src(2,3) l1 by auto
  have "Mapping1_import_from_upstream e m \<lparr>root = ''/'', parts = bs\<rparr> td excl pd w = (Inr (), w2)"
    using w1(1) w2(1) assms(1)
    by (simp add: Mapping1_import_from_upstream_def joins bind_def apply_patches_def ret_def)
  then show ?thesis using placed_extended [OF w1(2) w2(2)] by blast
qed

section \<open>All entries\<close>

text \<open>What an entry puts into the target directory.\<close>

definition entry_copy :: "string \<Rightarrow> loc \<Rightarrow> string list \<Rightarrow> node \<Rightarrow> mapping1 \<Rightarrow> node option" where
  "entry_copy c bs excl t m =
     map_option (copy_node (ignore_patterns c (abs_str bs) excl) (abs_str (bs @ parts (from_path m))))
       (node_at (bs @ parts (from_path m)) t)"

text \<open>An entry that can be imported: it applies no patches and its source, a file or a
  directory, exists.\<close>

definition plain_entry :: "loc \<Rightarrow> node \<Rightarrow> mapping1 \<Rightarrow> bool" where
  "plain_entry bs t m \<longleftrightarrow> m_patch_dir m = None \<and> mapping1_ok m
     \<and> node_at (bs @ parts (from_path m)) t \<noteq> None"

lemma way_free_placed:
  assumes "placed dl n w w'" "unrelated dl dl'" "way_free dl' w"
  shows "way_free dl' w'"
  unfolding way_free_def
proof (intro allI impI)
  fix q
  assume q: "prefix q dl'"
  show "node_at q (tree w') = None \<or> is_directory (node_at q (tree w'))"
  proof (cases "unrelated dl q")
    case False
    moreover have "\<not> prefix dl q" using q assms(2) by (metis prefix_order.trans unrelated_def)
    ultimately have "strict_prefix q dl" by (auto simp: unrelated_def strict_prefix_def)
    then show ?thesis using assms(1) by (simp add: placed_def)
  qed (use assms(1,3) q in \<open>simp add: placed_def way_free_def\<close>)
qed

lemma ready_placed:
  assumes "placed dl n w w'" "unrelated dl dl'" "ready dl' td ts w"
  shows "ready dl' td ts w'"
proof -
  have c: "cwd w' = cwd w" using assms(1) by (simp add: placed_def)
  then have st: "start_dir td w' = start_dir td w" by (simp add: start_dir_def)
  have d: "is_directory (node_at (rev (start_dir td w)) (tree w))" "loc_of td w @ ts = dl'"
    using assms(3) by (simp_all add: ready_def)
  have "way_free dl' w'" using way_free_placed [OF assms(1,2)] assms(3) by (simp add: ready_def)
  moreover have "node_at (rev (start_dir td w)) (tree w') \<noteq> None"
  proof (cases "unrelated dl (rev (start_dir td w))")
    case True
    then show ?thesis using assms(1) dir_not_None [OF d(1)] by (simp add: placed_def)
  next
    case False
    have "prefix (rev (start_dir td w)) dl'" using d(2) by (auto simp: loc_of_def)
    then have "\<not> prefix dl (rev (start_dir td w))" using assms(2)
      by (metis prefix_order.trans unrelated_def)
    with False have "strict_prefix (rev (start_dir td w)) dl" by (auto simp: unrelated_def strict_prefix_def)
    then show ?thesis using assms(1) dir_not_None by (simp add: placed_def)
  qed
  moreover have "prefix (rev (start_dir td w)) dl'" using d(2) by (auto simp: loc_of_def)
  ultimately show ?thesis
    using assms c st loc_of_cwd [OF c] by (auto simp: ready_def placed_def way_free_def)
qed

lemma import_entries:
  assumes "list_all clean bs" "bs \<noteq> []" "clean_path td" "parts td \<noteq> []"
    and "unrelated bs (loc_of td w)"
    and "list_all (plain_entry bs (tree w)) items"
    and "\<forall>m\<in>set items. ready (loc_of td w @ parts (to_path m)) td (parts (to_path m)) w"
    and "sorted_wrt (\<lambda>m m'. unrelated (parts (to_path m)) (parts (to_path m'))) items"
  shows "\<exists>w'. for_each items (\<lambda>m. Mapping1_import_from_upstream e m \<lparr>root = ''/'', parts = bs\<rparr> td excl pd) w
      = (Inr (), w') \<and> cwd w' = cwd w
    \<and> (\<forall>m\<in>set items. node_at (loc_of td w @ parts (to_path m)) (tree w')
          = entry_copy (abs_str (cwd w)) bs excl (tree w) m)
    \<and> (\<forall>q. (\<forall>m\<in>set items. unrelated (loc_of td w @ parts (to_path m)) q) \<longrightarrow>
          node_at q (tree w') = node_at q (tree w))"
  using assms(5-8)
proof (induction items arbitrary: w)
  case (Cons m items)
  let ?dl = "loc_of td w @ parts (to_path m)" and ?src = "bs @ parts (from_path m)"
  obtain n0 where es: "node_at ?src (tree w) = Some n0" "m_patch_dir m = None" "mapping1_ok m"
    using Cons.prems(2) by (auto simp: plain_entry_def)
  have far: "unrelated (bs @ x) (loc_of td w @ y)" for x y
    using Cons.prems(1) by (rule unrelated_append)
  then have np: "\<not> prefix ?src ?dl" by (simp add: unrelated_def)
  define n where "n = copy_node (ignore_patterns (abs_str (cwd w)) (abs_str bs) excl) (abs_str ?src) n0"
  have rdy: "ready ?dl td (parts (to_path m)) w" using Cons.prems(3) by simp
  from import_entry [OF es(2,3) assms(1,2) es(1) assms(3,4) rdy np, of e excl pd, folded n_def]
  obtain w1 where w1: "Mapping1_import_from_upstream e m \<lparr>root = ''/'', parts = bs\<rparr> td excl pd w = (Inr (), w1)"
    "placed ?dl n w w1" by blast
  have c0: "cwd w1 = cwd w" using w1(2) by (simp add: placed_def)
  note c1 = c0 loc_of_cwd [OF c0, of td]
  have un: "unrelated ?dl (loc_of td w @ parts (to_path m'))" if "m' \<in> set items" for m'
  proof -
    have "unrelated (parts (to_path m)) (parts (to_path m'))" using that Cons.prems(4) by simp
    then show ?thesis by (simp add: unrelated_def)
  qed
  have same: "node_at (bs @ x) (tree w1) = node_at (bs @ x) (tree w)" for x
    using w1(2) unrelated_sym [OF far] by (simp add: placed_def)
  have 1: "list_all (plain_entry bs (tree w1)) items"
    using Cons.prems(2) same by (auto simp: list_all_iff plain_entry_def)
  have 2: "\<forall>m\<in>set items. ready (loc_of td w1 @ parts (to_path m)) td (parts (to_path m)) w1"
    using ready_placed [OF w1(2) un] Cons.prems(3) c1(2) by simp
  have 3: "unrelated bs (loc_of td w1)" "sorted_wrt (\<lambda>m m'. unrelated (parts (to_path m)) (parts (to_path m'))) items"
    using Cons.prems(1,4) c1(2) by simp_all
  from Cons.IH [OF 3(1) 1 2 3(2)] obtain w2 where w2:
    "for_each items (\<lambda>m. Mapping1_import_from_upstream e m \<lparr>root = ''/'', parts = bs\<rparr> td excl pd) w1 = (Inr (), w2)"
    "cwd w2 = cwd w1"
    "\<forall>m\<in>set items. node_at (loc_of td w @ parts (to_path m)) (tree w2)
        = entry_copy (abs_str (cwd w)) bs excl (tree w1) m"
    "\<forall>q. (\<forall>m\<in>set items. unrelated (loc_of td w @ parts (to_path m)) q) \<longrightarrow> node_at q (tree w2) = node_at q (tree w1)"
    unfolding c1 by blast
  have "entry_copy (abs_str (cwd w)) bs excl (tree w1) m' = entry_copy (abs_str (cwd w)) bs excl (tree w) m'" for m'
    by (simp add: entry_copy_def same)
  moreover have "node_at ?dl (tree w2) = entry_copy (abs_str (cwd w)) bs excl (tree w) m"
  proof -
    have "\<forall>m'\<in>set items. unrelated (loc_of td w @ parts (to_path m')) ?dl"
      using un unrelated_sym by blast
    then have "node_at ?dl (tree w2) = node_at ?dl (tree w1)" using w2(4) by blast
    then show ?thesis using w1(2) es(1) by (simp add: placed_def entry_copy_def n_def)
  qed
  moreover have "node_at q (tree w2) = node_at q (tree w)"
    if "\<forall>m\<in>set (m # items). unrelated (loc_of td w @ parts (to_path m)) q" for q
    using that w1(2) w2(4) by (simp add: placed_def)
  ultimately show ?case using w1(1) w2 c1 by (intro exI [of _ w2]) (simp add: bind_def)
qed (simp add: ret_def)

lemma names_clean_at: "names_clean t \<Longrightarrow> node_at p t = Some n \<Longrightarrow> names_clean n"
proof (induction p t rule: node_at.induct)
  case (3 c cs es)
  then show ?case using entries_clean_get [of es c] by (auto split: option.splits)
qed auto

lemma entry_copy_files:
  assumes "names_clean t" "list_all clean (bs @ parts (from_path m))" "bs \<noteq> []"
    and "node_at (bs @ parts (from_path m)) t \<noteq> None"
    and "node_at dl t' = entry_copy c bs excl t m"
  shows "node_at (dl @ ps) t' = Some (File s) \<longleftrightarrow>
    node_at (bs @ parts (from_path m) @ ps) t = Some (File s) \<and> \<not> excluded excl (parts (from_path m)) ps"
proof -
  obtain n0 where es: "node_at (bs @ parts (from_path m)) t = Some n0" using assms(4) by auto
  have f: "copy_node ign path n = File s \<longleftrightarrow> n = File s" for ign path n by (cases n) auto
  have "node_at (dl @ ps) t' = node_at ps (copy_node (ignore_patterns c (abs_str bs) excl)
      (abs_str (bs @ parts (from_path m))) n0)"
    unfolding node_at_append [of dl] assms(5) by (simp add: entry_copy_def es)
  also have "\<dots> = Some (File s) \<longleftrightarrow>
      node_at ps n0 = Some (File s) \<and> \<not> excluded excl (parts (from_path m)) ps"
    unfolding node_at_copy [OF names_clean_at [OF assms(1) es] assms(2,3) refl] by (auto simp: f)
  also have "node_at ps n0 = node_at (bs @ parts (from_path m) @ ps) t"
    using node_at_append [of "bs @ parts (from_path m)" ps t] by (simp add: es)
  finally show ?thesis .
qed

lemma start_dir_cwd: "cwd w1 = cwd w \<Longrightarrow> start_dir p w1 = start_dir p w"
  by (simp add: start_dir_def)

text \<open>The target directory after its removal.\<close>

lemma rmtree_target:
  assumes "clean_path td" "loc_of td w = tgt" "tgt \<noteq> []" "way_free tgt w"
  shows "\<exists>w1. rmtree td w = (Inr (), w1) \<and> cwd w1 = cwd w \<and> (\<forall>x. node_at (tgt @ x) (tree w1) = None)
    \<and> (\<forall>q. unrelated tgt q \<longrightarrow> node_at q (tree w1) = node_at q (tree w))
    \<and> (\<forall>q. strict_prefix q tgt \<longrightarrow> node_at q (tree w1) = None \<or> is_directory (node_at q (tree w1)))
    \<and> (\<forall>q. strict_prefix q tgt \<longrightarrow> is_directory (node_at q (tree w)) \<longrightarrow> is_directory (node_at q (tree w1)))"
proof (cases "is_directory (node_at tgt (tree w))")
  case True
  have "is_directory (node_at q (tree w))" if "strict_prefix q tgt" for q
    using is_directory_prefix [OF True] that by (simp add: strict_prefix_def)
  then show ?thesis
    using rmtree_clean [OF assms(1), of w] True fs.get_del [OF assms(3)] fs.get_del_other [of tgt]
      fs.isdir_del [of _ tgt]
    by (simp add: assms(2) unrelated_def)
next
  case False
  then have "node_at tgt (tree w) = None" using assms(4) by (auto simp: way_free_def)
  then have "node_at (tgt @ x) (tree w) = None" for x by (simp add: node_at_append)
  then show ?thesis
    using rmtree_clean [OF assms(1), of w] False assms(4)
    by (simp add: assms(2) way_free_def strict_prefix_def)
qed

lemma ready_empty:
  assumes "loc_of td w = tgt" "\<forall>x. node_at (tgt @ x) (tree w) = None"
    and "\<forall>q. strict_prefix q tgt \<longrightarrow> node_at q (tree w) = None \<or> is_directory (node_at q (tree w))"
    and "is_directory (node_at (rev (start_dir td w)) (tree w))"
  shows "ready (tgt @ ts) td ts w"
proof -
  have "node_at q (tree w) = None \<or> is_directory (node_at q (tree w))" if "prefix q (tgt @ ts)" for q
  proof (cases "strict_prefix q tgt")
    case False
    then obtain x where "q = tgt @ x" using \<open>prefix q (tgt @ ts)\<close>
      by (auto simp: prefix_append strict_prefix_def)
    then show ?thesis using assms(2) by simp
  qed (use assms(3) in blast)
  then show ?thesis using assms by (auto simp: ready_def way_free_def)
qed

text \<open>Where all entries have been placed there are no other files.\<close>

lemma no_other_files:
  assumes "\<And>m. m \<in> set items \<Longrightarrow> node_at (tgt @ parts (to_path m)) t2 \<noteq> None"
    and "\<And>q. (\<And>m. m \<in> set items \<Longrightarrow> unrelated (tgt @ parts (to_path m)) q) \<Longrightarrow> node_at q t2 = node_at q t1"
    and "\<forall>x. node_at (tgt @ x) t1 = None" "node_at (tgt @ q) t2 = Some (File s)"
  shows "\<exists>m\<in>set items. \<exists>ps. q = parts (to_path m) @ ps"
proof (rule ccontr)
  assume no: "\<not> ?thesis"
  have "unrelated (tgt @ parts (to_path m)) (tgt @ q)" if m: "m \<in> set items" for m
  proof -
    have np: "\<not> prefix (parts (to_path m)) q" using no m by (auto simp: prefix_def)
    moreover have "\<not> prefix q (parts (to_path m))"
    proof
      assume "prefix q (parts (to_path m))"
      then have "strict_prefix (tgt @ q) (tgt @ parts (to_path m))"
        using np by (auto simp: strict_prefix_def)
      then have "is_directory (node_at (tgt @ q) t2)" by (rule node_at_strict_prefix [OF assms(1) [OF m]])
      then show False using assms(4) by simp
    qed
    ultimately show ?thesis by (simp add: unrelated_def)
  qed
  then have "node_at (tgt @ q) t2 = node_at (tgt @ q) t1" by (rule assms(2))
  then show False using assms(3,4) by simp
qed

text \<open>The import, step by step: the target directory without its content, then with the entries.\<close>

lemma import_placed:
  assumes "list_all clean bs" "bs \<noteq> []" "clean_path td" "parts td \<noteq> []"
    and "unrelated bs tgt" "way_free tgt w" "loc_of td w = tgt"
    and "is_directory (node_at (rev (start_dir td w)) (tree w))"
    and "list_all (plain_entry bs (tree w)) items"
    and "sorted_wrt (\<lambda>m m'. unrelated (parts (to_path m)) (parts (to_path m'))) items"
  shows "\<exists>(w1 :: world) w2. bind (rmtree td) (\<lambda>_. for_each items (\<lambda>m.
        Mapping1_import_from_upstream e m \<lparr>root = ''/'', parts = bs\<rparr> td excl pd)) w = (Inr (), w2)
    \<and> (\<forall>x. node_at (tgt @ x) (tree w1) = None)
    \<and> (\<forall>q. unrelated tgt q \<longrightarrow> node_at q (tree w1) = node_at q (tree w))
    \<and> (\<forall>m\<in>set items. node_at (tgt @ parts (to_path m)) (tree w2) = entry_copy (abs_str (cwd w)) bs excl (tree w) m)
    \<and> (\<forall>q. (\<forall>m\<in>set items. unrelated (tgt @ parts (to_path m)) q) \<longrightarrow> node_at q (tree w2) = node_at q (tree w1))"
proof -
  have ne: "tgt \<noteq> []" using assms(4,7) by (auto simp: loc_of_def)
  obtain w1 where w1: "rmtree td w = (Inr (), w1)" "cwd w1 = cwd w" "\<forall>x. node_at (tgt @ x) (tree w1) = None"
    "\<forall>q. unrelated tgt q \<longrightarrow> node_at q (tree w1) = node_at q (tree w)"
    "\<forall>q. strict_prefix q tgt \<longrightarrow> node_at q (tree w1) = None \<or> is_directory (node_at q (tree w1))"
    "\<forall>q. strict_prefix q tgt \<longrightarrow> is_directory (node_at q (tree w)) \<longrightarrow> is_directory (node_at q (tree w1))"
    using rmtree_target [OF assms(3,7) ne assms(6)] by blast
  have tgt1: "loc_of td w1 = tgt" using loc_of_cwd [OF w1(2), of td] assms(7) by simp
  have "strict_prefix (rev (start_dir td w)) tgt"
    using assms(4,7) by (auto simp: loc_of_def strict_prefix_def)
  then have st: "is_directory (node_at (rev (start_dir td w1)) (tree w1))"
    using w1(6) assms(8) start_dir_cwd [OF w1(2), of td] by simp
  have src: "node_at (bs @ x) (tree w1) = node_at (bs @ x) (tree w)" for x
  proof -
    have "unrelated tgt (bs @ x)" using unrelated_sym [OF unrelated_append [OF assms(5), of x "[]"]] by simp
    then show ?thesis using w1(4) by blast
  qed
  have pl: "list_all (plain_entry bs (tree w1)) items"
    using assms(9) by (simp add: list_all_iff plain_entry_def src)
  have rd: "\<forall>m\<in>set items. ready (loc_of td w1 @ parts (to_path m)) td (parts (to_path m)) w1"
    using ready_empty [OF tgt1 w1(3,5) st] tgt1 by simp
  from import_entries [OF assms(1-4) _ pl rd assms(10), where excl = excl and e = e and pd = pd]
  obtain w2 where "for_each items (\<lambda>m. Mapping1_import_from_upstream e m \<lparr>root = ''/'', parts = bs\<rparr> td excl pd) w1
      = (Inr (), w2)"
    "\<forall>m\<in>set items. node_at (tgt @ parts (to_path m)) (tree w2) = entry_copy (abs_str (cwd w1)) bs excl (tree w1) m"
    "\<forall>q. (\<forall>m\<in>set items. unrelated (tgt @ parts (to_path m)) q) \<longrightarrow> node_at q (tree w2) = node_at q (tree w1)"
    unfolding tgt1 using assms(5) by auto
  then show ?thesis using w1(1-4)
    by - (rule exI [of _ w1], rule exI [of _ w2], simp add: bind_def entry_copy_def src)
qed

lemma import_files:
  assumes "list_all clean bs" "bs \<noteq> []" "names_clean (tree w)"
    and "clean_path (d_target_dir d)" "parts (d_target_dir d) \<noteq> []"
    and "unrelated bs (loc_of (d_target_dir d) w)" "way_free (loc_of (d_target_dir d) w) w"
    and "is_directory (node_at (rev (start_dir (d_target_dir d) w)) (tree w))"
    and "list_all (plain_entry bs (tree w)) (mapping_items d)"
    and "sorted_wrt (\<lambda>m m'. unrelated (parts (to_path m)) (parts (to_path m'))) (mapping_items d)"
  shows "\<exists>w'. import_from_upstream e d \<lparr>root = ''/'', parts = bs\<rparr> w = (Inr (), w')
    \<and> (\<forall>m\<in>set (mapping_items d). \<forall>ps s.
         node_at (loc_of (d_target_dir d) w @ parts (to_path m) @ ps) (tree w') = Some (File s) \<longleftrightarrow>
         node_at (bs @ parts (from_path m) @ ps) (tree w) = Some (File s)
           \<and> \<not> excluded (d_exclude d) (parts (from_path m)) ps)
    \<and> (\<forall>q s. node_at (loc_of (d_target_dir d) w @ q) (tree w') = Some (File s) \<longrightarrow>
         (\<exists>m\<in>set (mapping_items d). \<exists>ps. q = parts (to_path m) @ ps))
    \<and> (\<forall>q. unrelated (loc_of (d_target_dir d) w) q \<longrightarrow> node_at q (tree w') = node_at q (tree w))"
proof -
  define td tgt where "td = d_target_dir d" and "tgt = loc_of td w"
  let ?items = "mapping_items d"
  note [simp] = td_def [symmetric] and tgt = tgt_def [symmetric]
  from import_placed [OF assms(1,2,4-6) _ _ assms(8-10), where e = e and excl = "d_exclude d" and pd = "d_patch_dir d"]
  obtain w1 w2 :: world where w2: "import_from_upstream e d \<lparr>root = ''/'', parts = bs\<rparr> w = (Inr (), w2)"
    "\<forall>x. node_at (tgt @ x) (tree w1) = None" "\<forall>q. unrelated tgt q \<longrightarrow> node_at q (tree w1) = node_at q (tree w)"
    "\<forall>m\<in>set ?items. node_at (tgt @ parts (to_path m)) (tree w2) = entry_copy (abs_str (cwd w)) bs (d_exclude d) (tree w) m"
    "\<forall>q. (\<forall>m\<in>set ?items. unrelated (tgt @ parts (to_path m)) q) \<longrightarrow> node_at q (tree w2) = node_at q (tree w1)"
    using assms(7) by (auto simp: import_from_upstream_def tgt)
  have p: "plain_entry bs (tree w) m" "list_all clean (bs @ parts (from_path m))"
    "node_at (bs @ parts (from_path m)) (tree w) \<noteq> None" if "m \<in> set ?items" for m
    using assms(1,9) that by (auto simp: list_all_iff plain_entry_def mapping1_ok_def rel_clean_def)
  have files: "node_at (tgt @ parts (to_path m) @ ps) (tree w2) = Some (File s) \<longleftrightarrow>
      node_at (bs @ parts (from_path m) @ ps) (tree w) = Some (File s)
        \<and> \<not> excluded (d_exclude d) (parts (from_path m)) ps" if m: "m \<in> set ?items" for m ps s
  proof -
    have "node_at (tgt @ parts (to_path m)) (tree w2) = entry_copy (abs_str (cwd w)) bs (d_exclude d) (tree w) m"
      using w2(4) m by simp
    from entry_copy_files [OF assms(3) p(2) [OF m] assms(2) p(3) [OF m] this, of ps s] show ?thesis by simp
  qed
  have there: "node_at (tgt @ parts (to_path m)) (tree w2) \<noteq> None" if "m \<in> set ?items" for m
    using w2(4) that p(3) by (simp add: entry_copy_def)
  have only: "\<exists>m\<in>set ?items. \<exists>ps. q = parts (to_path m) @ ps"
    if "node_at (tgt @ q) (tree w2) = Some (File s)" for q s
    by (rule no_other_files [OF there _ w2(2) that]) (use w2(5) in blast)+
  have out: "node_at q (tree w2) = node_at q (tree w)" if "unrelated tgt q" for q
    using w2(3,5) that unrelated_append [of tgt q _ "[]"] by simp
  show ?thesis using w2(1) files only out by (auto simp: tgt_def)
qed

text \<open>C1: the import, from a checkout at \<open>bs\<close>: when the sources of the mapping, files or directories,
  are there (and have no patches), nothing but directories stands on the way to the target
  directory, and the destinations of the entries are unrelated, it succeeds; afterwards the files at
  or below each destination are exactly the files of the entry's source that no pattern excludes,
  there is no other file in the target directory, and outside of it nothing changed.\<close>

theorem import_from_upstream_files:
  assumes "list_all clean bs" "bs \<noteq> []" "names_clean (tree w)"
    and "clean_path (d_target_dir d)" "parts (d_target_dir d) \<noteq> []"
    and "unrelated bs (loc_of (d_target_dir d) w)" "way_free (loc_of (d_target_dir d) w) w"
    and "is_directory (node_at (rev (start_dir (d_target_dir d) w)) (tree w))"
    and "list_all (plain_entry bs (tree w)) (mapping_items d)"
    and "sorted_wrt (\<lambda>m m'. unrelated (parts (to_path m)) (parts (to_path m'))) (mapping_items d)"
  shows "\<exists>w'. import_from_upstream e d \<lparr>root = ''/'', parts = bs\<rparr> w = (Inr (), w')
    \<and> (\<forall>m\<in>set (mapping_items d). \<forall>ps s.
         node_at (loc_of (d_target_dir d) w @ parts (to_path m) @ ps) (tree w') = Some (File s) \<longleftrightarrow>
         node_at (bs @ parts (from_path m) @ ps) (tree w) = Some (File s)
           \<and> \<not> excluded (d_exclude d) (parts (from_path m)) ps)
    \<and> (\<forall>q s. node_at (loc_of (d_target_dir d) w @ q) (tree w') = Some (File s) \<longrightarrow>
         (\<exists>m\<in>set (mapping_items d). \<exists>ps. q = parts (to_path m) @ ps))
    \<and> (\<forall>q. unrelated (loc_of (d_target_dir d) w) q \<longrightarrow> node_at q (tree w') = node_at q (tree w))"
  using assms by (rule import_files)

text \<open>A checkout with a directory \<open>a\<close>, and an old file in the target directory.\<close>

definition ex_checkout :: world where
  "ex_checkout = \<lparr>tree = Dir
     [(''w'', Dir [(''v'', Dir [(''ip'', Dir [(''old'', File ''old'')])])]),
      (''tmp'', Dir [(''x'', Dir [(''a'', Dir [(''f'', File ''text'')])])])],
     cwd = [''w''], trace = []\<rparr>"

theorem import_from_upstream_files_witness:
  "\<exists>w'. import_from_upstream (ex_env []) (ex_desc ''r'') \<lparr>root = ''/'', parts = [''tmp'', ''x'']\<rparr> ex_checkout
      = (Inr (), w')
    \<and> node_at [''w'', ''v'', ''ip'', ''b'', ''c'', ''f''] (tree w') = Some (File ''text'')
    \<and> node_at [''w'', ''v'', ''ip'', ''old''] (tree w') \<noteq> Some (File ''old'')"
proof -
  let ?d = "ex_desc ''r''"
  have i: "mapping_items ?d = [the (d_mapping ?d) ! 0]" "d_target_dir ?d = \<lparr>root = [], parts = [''v'', ''ip'']\<rparr>"
    "loc_of \<lparr>root = [], parts = [''v'', ''ip'']\<rparr> ex_checkout = [''w'', ''v'', ''ip'']"
    "start_dir \<lparr>root = [], parts = [''v'', ''ip'']\<rparr> ex_checkout = [''w'']"
    "parts (to_path (the (d_mapping ?d) ! 0)) = [''b'', ''c'']"
    "parts (from_path (the (d_mapping ?d) ! 0)) = [''a'']" "d_exclude ?d = [''.git'']"
    by (simp_all add: ex_desc_def mapping_items_def loc_of_def start_dir_def ex_checkout_def)
  have lit: "literal ''.git''" by (simp add: literal_def)
  have ne: "\<not> excluded [''.git''] [''a''] [''f'']"
    by (simp add: excluded_Cons fnmatch_literal [OF lit])
  have way: "way_free [''w'', ''v'', ''ip''] ex_checkout"
    by (auto simp: way_free_def ex_checkout_def prefix_Cons)
  have pl: "list_all (plain_entry [''tmp'', ''x''] (tree ex_checkout)) (mapping_items ?d)"
    by (simp add: ex_desc_def mapping_items_def plain_entry_def mapping1_ok_def rel_clean_def clean_iff
        ex_checkout_def)
  have "names_clean (tree ex_checkout)" by (simp add: ex_checkout_def clean_iff)
  note imported = import_from_upstream_files [of "[''tmp'', ''x'']" ex_checkout ?d "ex_env []", OF _ _ this]
  have "clean_path (d_target_dir ?d)" "parts (d_target_dir ?d) \<noteq> []"
    by (simp_all add: i clean_path_def clean_iff)
  moreover have "unrelated [''tmp'', ''x''] (loc_of (d_target_dir ?d) ex_checkout)"
    by (simp add: i unrelated_def)
  moreover have "is_directory (node_at (rev (start_dir (d_target_dir ?d) ex_checkout)) (tree ex_checkout))"
    by (simp add: i) (simp add: ex_checkout_def)
  ultimately obtain w' where w': "import_from_upstream (ex_env []) ?d \<lparr>root = ''/'', parts = [''tmp'', ''x'']\<rparr> ex_checkout
      = (Inr (), w')"
    "\<forall>ps s. node_at ([''w'', ''v'', ''ip''] @ [''b'', ''c''] @ ps) (tree w') = Some (File s) \<longleftrightarrow>
       node_at ([''tmp'', ''x''] @ [''a''] @ ps) (tree ex_checkout) = Some (File s)
       \<and> \<not> excluded [''.git''] [''a''] ps"
    "\<forall>q s. node_at ([''w'', ''v'', ''ip''] @ q) (tree w') = Some (File s) \<longrightarrow> (\<exists>ps. q = [''b'', ''c''] @ ps)"
    using imported way pl by (auto simp: i clean_iff)
  have "node_at [''w'', ''v'', ''ip'', ''b'', ''c'', ''f''] (tree w') = Some (File ''text'')"
    using w'(2) [rule_format, of "[''f'']" "''text''"] ne by (simp add: ex_checkout_def)
  moreover have "node_at [''w'', ''v'', ''ip'', ''old''] (tree w') \<noteq> Some (File ''old'')"
    using w'(3) [rule_format, of "[''old'']" "''old''"] by auto
  ultimately show ?thesis using w'(1) by blast
qed

end
