(* ===== verification/GitHubProps.thy ===== *)
theory GitHubProps
  imports GitHubRefs
begin

text \<open>
  The properties of the GitHub functions: the URLs that are recognised, the references that
  are rewritten and what is kept, and the organisation names that break the replacement.
\<close>

section \<open>URLs\<close>

lemma slug_simps [simp]:
  "\<not> is_slug (CHR ''/'')" "\<not> is_slug (CHR '':'')" "\<not> is_slug (CHR ''.'')" "\<not> is_slug newline"
  by (simp_all add: is_slug_def char_class_defs)

text \<open>What the expression means: the parts of a string it matches.\<close>

definition url_parts :: "string \<Rightarrow> string \<Rightarrow> string \<Rightarrow> bool" where
  "url_parts s org name \<longleftrightarrow>
     (\<exists>pre sep suf. s = pre @ sep @ org @ ''/'' @ name @ suf \<and>
        sep \<in> {host_ssh, host_https} \<and> url_end suf \<and>
        org \<noteq> [] \<and> name \<noteq> [] \<and> list_all is_slug org \<and> list_all is_slug name)"

lemma url_end_stop: "url_end suf \<Longrightarrow> suf = [] \<or> \<not> is_slug (hd suf)"
  by (auto simp: url_end_def)

lemma url_end_no_slash: "url_end suf \<Longrightarrow> CHR ''/'' \<notin> set suf"
  by (auto simp: url_end_def newline_def)

lemma slug_no_slash: "list_all is_slug w \<Longrightarrow> CHR ''/'' \<notin> set w"
  by (auto simp: list_all_iff)

lemma slug_run:
  assumes "list_all is_slug w" "suf = [] \<or> \<not> is_slug (hd suf)"
  shows "takeWhile is_slug (w @ suf) = w" "dropWhile is_slug (w @ suf) = suf"
  using takeWhile_append_stop [of w is_slug suf] dropWhile_append_stop [of w is_slug suf] assms
  by (simp_all add: list_all_iff)

lemma url_partsE:
  assumes "url_parts s org name"
  obtains pre sep suf where "s = pre @ sep @ org @ ''/'' @ name @ suf"
    "sep \<in> {host_ssh, host_https}" "url_end suf" "org \<noteq> []" "name \<noteq> []"
    "list_all is_slug org" "list_all is_slug name"
  using assms unfolding url_parts_def by blast

lemma url_host_Some: "url_host s = Some r \<Longrightarrow> s = host_ssh @ r \<or> s = host_https @ r"
  by (auto simp: url_host_def dest: strip_prefix_SomeD split: option.splits)

lemma url_host_append: "sep \<in> {host_ssh, host_https} \<Longrightarrow> url_host (sep @ r) = Some r"
  by (auto simp: url_host_def host_ssh_def host_https_def)

lemma host_last: "sep \<in> {host_ssh, host_https} \<Longrightarrow> \<exists>p c. sep = p @ [c] \<and> \<not> is_slug c"
  by (elim insertE emptyE)
    (rule exI [of _ "butlast sep"], rule exI [of _ "last sep"], simp add: host_ssh_def host_https_def)+

lemma url_match_Some: "url_match s = Some (org, name) \<Longrightarrow> url_parts s org name"
proof -
  assume m: "url_match s = Some (org, name)"
  then obtain r r2 where h: "url_host s = Some r" and r: "org = takeWhile is_slug r"
    "strip_prefix ''/'' (dropWhile is_slug r) = Some r2" "name = takeWhile is_slug r2"
    "org \<noteq> []" "name \<noteq> []" "url_end (dropWhile is_slug r2)"
    by (auto simp: url_match_def Let_def split: option.splits if_splits)
  obtain sep where sep: "s = sep @ r" "sep \<in> {host_ssh, host_https}"
    using url_host_Some [OF h] by blast
  have r2: "dropWhile is_slug r = ''/'' @ r2" using r(2) by (rule strip_prefix_SomeD)
  have "s = [] @ sep @ org @ ''/'' @ name @ dropWhile is_slug r2"
    using sep(1) r(1,3) r2 takeWhile_dropWhile_id [of is_slug r] by simp
  moreover have "list_all is_slug org" "list_all is_slug name"
    using r(1,3) by (auto simp: list_all_iff dest: set_takeWhileD)
  ultimately show ?thesis unfolding url_parts_def using sep(2) r(4-6) by blast
qed

lemma github_parse_url_sound: "github_parse_url s = Some (org, name) \<Longrightarrow> url_parts s org name"
proof (induction s)
  case Nil
  then show ?case
    by (subst (asm) github_parse_url.simps) (auto split: option.splits dest: url_match_Some)
next
  case (Cons c s)
  show ?case
  proof (cases "url_match (c # s)")
    case None
    with Cons.prems have "github_parse_url s = Some (org, name)"
      by (subst (asm) github_parse_url.simps) simp
    then obtain pre sep suf where "s = pre @ sep @ org @ ''/'' @ name @ suf"
      "sep \<in> {host_ssh, host_https}" "url_end suf" "org \<noteq> []" "name \<noteq> []"
      "list_all is_slug org" "list_all is_slug name"
      using Cons.IH url_partsE by metis
    then show ?thesis unfolding url_parts_def
      by (intro exI [of _ "c # pre"] exI [of _ sep] exI [of _ suf]) simp
  next
    case (Some m)
    with Cons.prems have "url_match (c # s) = Some (org, name)"
      by (subst (asm) github_parse_url.simps) simp
    then show ?thesis by (rule url_match_Some)
  qed
qed

lemma url_match_parts:
  assumes "sep \<in> {host_ssh, host_https}" "url_end suf" "org \<noteq> []" "name \<noteq> []"
    "list_all is_slug org" "list_all is_slug name"
  shows "url_match (sep @ org @ ''/'' @ name @ suf) = Some (org, name)"
proof -
  let ?r = "org @ ''/'' @ name @ suf"
  have "url_host (sep @ ?r) = Some ?r" using assms(1) by (rule url_host_append)
  moreover have "takeWhile is_slug ?r = org" "dropWhile is_slug ?r = ''/'' @ name @ suf"
    using slug_run [OF assms(5), of "''/'' @ name @ suf"] by simp_all
  moreover have "takeWhile is_slug (name @ suf) = name" "dropWhile is_slug (name @ suf) = suf"
    using slug_run [OF assms(6) url_end_stop [OF assms(2)]] by simp_all
  ultimately show ?thesis using assms by (simp add: url_match_def Let_def)
qed

lemma github_parse_url_found: "url_match t = Some m \<Longrightarrow> github_parse_url (pre @ t) \<noteq> None"
proof (induction pre)
  case Nil
  then show ?case by (subst append_Nil, subst github_parse_url.simps) simp
next
  case (Cons c pre)
  then show ?case by (subst github_parse_url.simps) (auto split: option.splits)
qed

text \<open>The parts are determined by the string: read it from the end.\<close>

lemma url_parts_unique:
  assumes "url_parts s org name" "url_parts s org' name'"
  shows "org = org' \<and> name = name'"
proof -
  obtain pre sep suf where "s = pre @ sep @ org @ ''/'' @ name @ suf" and 1:
    "sep \<in> {host_ssh, host_https}" "url_end suf" "list_all is_slug org" "list_all is_slug name"
    using assms(1) by (rule url_partsE)
  then have s1: "s = (pre @ sep @ org) @ CHR ''/'' # name @ suf" by simp
  obtain pre' sep' suf' where "s = pre' @ sep' @ org' @ ''/'' @ name' @ suf'" and 2:
    "sep' \<in> {host_ssh, host_https}" "url_end suf'" "list_all is_slug org'" "list_all is_slug name'"
    using assms(2) by (rule url_partsE)
  then have s2: "s = (pre' @ sep' @ org') @ CHR ''/'' # name' @ suf'" by simp
  have nosl: "CHR ''/'' \<notin> set (rev (name @ suf))" "CHR ''/'' \<notin> set (rev (name' @ suf'))"
    using 1 2 by (simp_all add: slug_no_slash url_end_no_slash)
  have "rev (name @ suf) @ CHR ''/'' # rev (pre @ sep @ org)
      = rev (name' @ suf') @ CHR ''/'' # rev (pre' @ sep' @ org')"
    using arg_cong [OF trans [OF s1 [symmetric] s2], of rev] by simp
  then have "rev (name @ suf) = rev (name' @ suf') \<and> rev (pre @ sep @ org) = rev (pre' @ sep' @ org')"
    by (rule iffD1 [OF first_sep_eq_iff [OF nosl]])
  then have eq: "rev (name @ suf) = rev (name' @ suf')" "rev (pre @ sep @ org) = rev (pre' @ sep' @ org')"
    by (rule conjunct1, rule conjunct2)
  have "takeWhile is_slug (name @ suf) = name" "takeWhile is_slug (name' @ suf') = name'"
    using slug_run [OF 1(4) url_end_stop [OF 1(2)]] slug_run [OF 2(4) url_end_stop [OF 2(2)]]
    by simp_all
  moreover have "name @ suf = name' @ suf'" using arg_cong [OF eq(1), of rev] by simp
  ultimately have "name = name'" by simp
  moreover have tw: "takeWhile is_slug (rev (p @ q @ u)) = rev u"
    if "q \<in> {host_ssh, host_https}" "list_all is_slug u" for p q u
  proof -
    from host_last [OF that(1)] obtain q' c where "q = q' @ [c]" "\<not> is_slug c" by blast
    then show ?thesis using slug_run [of "rev u" "c # rev q' @ rev p"] that(2) by simp
  qed
  have "rev org = rev org'"
    using tw [OF 1(1,3), of pre] tw [OF 2(1,3), of pre'] eq(2) by simp
  ultimately show ?thesis by simp
qed

lemma github_parse_url_parts: "github_parse_url s = Some (org, name) \<longleftrightarrow> url_parts s org name"
proof
  assume parts: "url_parts s org name"
  then obtain pre sep suf where s: "s = pre @ sep @ org @ ''/'' @ name @ suf" and p:
    "sep \<in> {host_ssh, host_https}" "url_end suf" "org \<noteq> []" "name \<noteq> []"
    "list_all is_slug org" "list_all is_slug name"
    by (rule url_partsE)
  have "github_parse_url s \<noteq> None"
    unfolding s by (rule github_parse_url_found [OF url_match_parts [OF p]])
  then obtain org' name' where f: "github_parse_url s = Some (org', name')" by auto
  then have "url_parts s org' name'" by (rule github_parse_url_sound)
  then show "github_parse_url s = Some (org, name)"
    using url_parts_unique [OF parts] f by simp
qed (rule github_parse_url_sound)

text \<open>C18: \<open>github_parse_url\<close> finds an organisation and a repository exactly when the URL ends in
  them, after one of the two host forms and before an optional \<open>.git\<close>, and both consist of
  letters, digits and hyphens; the two names are then determined.\<close>

theorem github_parse_url_iff:
  "github_parse_url s = Some (org, name) \<longleftrightarrow>
     (\<exists>pre sep suf. s = pre @ sep @ org @ ''/'' @ name @ suf \<and>
        sep \<in> {''@github.com:'', ''/github.com/''} \<and> url_end suf \<and>
        org \<noteq> [] \<and> name \<noteq> [] \<and> list_all is_slug org \<and> list_all is_slug name)"
  unfolding github_parse_url_parts url_parts_def host_ssh_def host_https_def by (rule refl)

text \<open>The repository's tests of the two functions pass.\<close>

lemma github_tests_pass: "test_github_parse_url \<and> test_github_qualify_references"
  by code_simp

section \<open>References\<close>

definition is_ref_prefix :: "string \<Rightarrow> bool" where
  "is_ref_prefix p \<longleftrightarrow> p = ''#'' \<or> p \<in> set gh_forms"

lemma ref_prefix_Some:
  assumes "ref_prefix s = Some (p, r)"
  shows "s = p @ r \<and> is_ref_prefix p"
proof (cases s)
  case (Cons c t)
  show ?thesis
  proof (cases "c = CHR ''#''")
    case True
    then show ?thesis using assms Cons by (simp add: ref_prefix_def is_ref_prefix_def)
  next
    case False
    then have "take 3 s \<in> set gh_forms \<and> p = take 3 s \<and> r = drop 3 s"
      using assms Cons unfolding ref_prefix_def by (simp only: list.case if_False split: if_splits) simp_all
    then show ?thesis by (metis append_take_drop_id is_ref_prefix_def)
  qed
qed (use assms in \<open>simp add: ref_prefix_def\<close>)

lemma ref_number_Some:
  "ref_number s = Some (ds, r) \<Longrightarrow>
     s = ds @ r \<and> ds \<noteq> [] \<and> list_all is_digit ds \<and> (r = [] \<or> \<not> is_word (hd r))"
  by (auto simp: ref_number_def Let_def list_all_iff dest: set_takeWhileD split: if_splits)

lemma ref_number_run:
  assumes "ds \<noteq> []" "list_all is_digit ds" "r = [] \<or> \<not> is_word (hd r)"
  shows "ref_number (ds @ r) = Some (ds, r)"
proof -
  have "r = [] \<or> \<not> is_digit (hd r)" using assms(3) is_digit_word by blast
  then show ?thesis
    using assms takeWhile_append_stop [of ds is_digit r] dropWhile_append_stop [of ds is_digit r]
    by (auto simp: ref_number_def Let_def list_all_iff)
qed

lemma ref_body_Some:
  "ref_body s = Some ((p, ds), r) \<Longrightarrow>
     s = p @ ds @ r \<and> is_ref_prefix p \<and> ds \<noteq> [] \<and> list_all is_digit ds \<and>
     (r = [] \<or> \<not> is_word (hd r))"
  by (auto simp: ref_body_def split: option.splits dest!: ref_prefix_Some ref_number_Some)

lemma ref_body_run:
  assumes "is_ref_prefix p" "ds \<noteq> []" "list_all is_digit ds" "r = [] \<or> \<not> is_word (hd r)"
  shows "ref_body (p @ ds @ r) = Some ((p, ds), r)"
proof -
  have "ref_prefix (p @ ds @ r) = Some (p, ds @ r)"
    using assms(1) by (auto simp: is_ref_prefix_def ref_prefix_def gh_forms_def)
  then show ?thesis using ref_number_run [OF assms(2-4)] by (simp add: ref_body_def)
qed

lemma ref_match_Some:
  assumes "ref_match st s = Some ((g1, p, ds), r)"
  shows "s = g1 @ p @ ds @ r \<and> (g1 = [] \<or> (\<exists>c. g1 = [c] \<and> \<not> is_word c)) \<and> is_ref_prefix p \<and>
    ds \<noteq> [] \<and> list_all is_digit ds \<and> (r = [] \<or> \<not> is_word (hd r))"
  using assms unfolding ref_match_def
  by (auto split: option.splits if_splits list.splits dest!: ref_body_Some)

interpretation ref: matcher ref_match
  by unfold_locales (auto dest!: ref_match_Some)

section \<open>The replacement template\<close>

lemma parse_template_lits:
  "backslash \<notin> set w \<Longrightarrow> parse_template (w @ t) = add_lits w (parse_template t)"
proof (induction w)
  case Nil
  show ?case by (cases "parse_template t") (simp_all add: add_lits_def)
next
  case (Cons c w)
  then show ?case
    by (cases "parse_template t") (auto simp: parse_template.simps(2) add_lits_def)
qed

lemma digit_facts:
  assumes "is_digit d"
  shows "d \<noteq> CHR ''g''" "d \<noteq> backslash" "d \<noteq> CHR 0x5C"
  using assms by (auto simp: char_class_defs backslash_def)

lemma is_digit_one [simp]: "is_digit (CHR ''1'')" "is_oct (CHR ''1'')" "is_digit (CHR ''2'')"
  by (simp_all add: char_class_defs is_oct_def)

lemma parse_template_tail: "parse_template [backslash, CHR ''2''] = Inr [Grp 2]"
  by (simp add: parse_template.simps(2) backslash_def add_group_def int10_def undigits_def code_def)

lemma parse_template_middle:
  "backslash \<notin> set w \<Longrightarrow> parse_template (w @ [backslash, CHR ''2'']) = Inr (map Lit w @ [Grp 2])"
  by (simp add: parse_template_lits parse_template_tail add_lits_def)

text \<open>An organisation that does not start with a digit gives the intended template.\<close>

lemma parse_template_repl:
  assumes "org = [] \<or> \<not> is_digit (hd org)" "backslash \<notin> set org" "backslash \<notin> set name"
  shows "parse_template (repl_str org name) =
    Inr ([Grp 1] @ map Lit (org @ ''/'' @ name @ ''#'') @ [Grp 2])"
proof -
  let ?w = "org @ ''/'' @ name @ ''#''"
  have w: "backslash \<notin> set ?w" using assms by (auto simp: backslash_def)
  obtain x xs where x: "?w = x # xs" "\<not> is_digit x"
    using assms(1) by (cases org) (auto simp: char_class_defs)
  have "parse_template (repl_str org name) =
      parse_template (backslash # CHR ''1'' # ?w @ [backslash, CHR ''2''])"
    by (simp add: repl_str_def)
  also have "\<dots> = add_group 1 (parse_template (?w @ [backslash, CHR ''2'']))"
    unfolding x(1) using x(2)
    by (subst parse_template.simps(2)) (simp add: int10_def undigits_def code_def)
  also have "\<dots> = Inr ([Grp 1] @ map Lit ?w @ [Grp 2])"
    unfolding parse_template_middle [OF w] by (simp add: add_group_def)
  finally show ?thesis .
qed

lemma expand_repl:
  "expand ([Grp 1] @ map Lit w @ [Grp 2]) (g1, p, ds) = g1 @ w @ ds"
  by (induction w) (simp_all add: expand_def)

section \<open>What is rewritten\<close>



definition piece_tgt :: "string \<Rightarrow> string \<Rightarrow> ref + char \<Rightarrow> string" where
  "piece_tgt org name i =
     (case i of Inl (g1, p, ds) \<Rightarrow> g1 @ org @ ''/'' @ name @ ''#'' @ ds | Inr c \<Rightarrow> [c])"

definition qualify_line :: "string \<Rightarrow> string \<Rightarrow> string \<Rightarrow> string" where
  "qualify_line org name l = concat (map (piece_tgt org name) (scan ref_match True l))"

lemma re_sub_qualify_line:
  "re_sub (expand ([Grp 1] @ map Lit (org @ ''/'' @ name @ ''#'') @ [Grp 2])) ref_match l
     = qualify_line org name l"
proof -
  let ?e = "expand ([Grp 1] @ map Lit (org @ ''/'' @ name @ ''#'') @ [Grp 2])"
  have e: "?e x = piece_tgt org name (Inl x)" for x
  proof (cases x)
    case (fields g1 p ds)
    show ?thesis
      unfolding fields by (simp only: expand_repl piece_tgt_def sum.case prod.case append_assoc)
  qed
  have "(\<lambda>i. case i of Inl x \<Rightarrow> ?e x | Inr c \<Rightarrow> [c]) = piece_tgt org name"
    unfolding e by (rule ext) (auto simp: piece_tgt_def split: sum.split)
  then show ?thesis unfolding re_sub_def qualify_line_def by (rule arg_cong)
qed

lemma qualify_references_ok:
  assumes "org = [] \<or> \<not> is_digit (hd org)" "backslash \<notin> set org" "backslash \<notin> set name"
  shows "github_qualify_references log org name = Inr (map (qualify_line org name) log)"
  unfolding github_qualify_references_def parse_template_repl [OF assms]
  by (intro rmap_total ballI) (simp only: rbind_simps re_sub_qualify_line)












lemma ref_body_None:
  assumes "s = [] \<or> (hd s \<noteq> CHR ''#'' \<and> (\<not> is_word (hd s) \<or> length s < 3 \<or> s ! 2 \<noteq> CHR ''-''))"
  shows "ref_body s = None"
proof (cases s)
  case (Cons c t)
  have "take 3 s \<notin> set gh_forms"
  proof
    assume g: "take 3 s \<in> set gh_forms"
    then obtain w where w: "w \<in> set gh_forms" "s = w @ drop 3 s"
      by (metis append_take_drop_id)
    have "w @ t \<noteq> [] \<and> is_word (hd (w @ t)) \<and> \<not> length (w @ t) < 3 \<and> (w @ t) ! 2 = CHR ''-''" for t
      using w(1) by (auto simp: gh_forms_def char_class_defs)
    then show False using assms w(2) by metis
  qed
  then have "ref_prefix s = None" using assms Cons by (simp add: ref_prefix_def)
  then show ?thesis by (simp add: ref_body_def)
qed (simp add: ref_body_def ref_prefix_def)

lemma piece_tgt_chars: "concat (map (piece_tgt org name) (map Inr w)) = w"
  by (induction w) (simp_all add: piece_tgt_def)

text \<open>Text without a hash or a hyphen holds no reference, whatever plain text follows it.\<close>

definition plain :: "string \<Rightarrow> bool" where
  "plain s \<longleftrightarrow> CHR ''#'' \<notin> set s \<and> CHR ''-'' \<notin> set s"

lemma ref_match_None:
  assumes "ref_body s = None" "s = [] \<or> is_word (hd s) \<or> ref_body (tl s) = None"
  shows "ref_match st s = None"
  using assms by (cases s) (auto simp: ref_match_def)

lemma plain_skip:
  assumes "plain a" "t = [] \<or> (hd t \<noteq> CHR ''#'' \<and> hd t \<noteq> CHR ''-'' \<and> \<not> is_word (hd t))"
    and "length t \<ge> 2 \<Longrightarrow> t ! 1 \<noteq> CHR ''-''"
  shows "scan ref_match st (a @ t) = map Inr a @ scan ref_match (st \<and> a = []) t"
proof (rule ref.scan_skip_all, intro allI impI)
  fix x b
  assume ab: "a = x @ b" "b \<noteq> []"
  have body: "ref_body (b' @ t) = None" if p: "set b' \<subseteq> set a" for b'
  proof (rule ref_body_None)
    have h: "c \<in> set b' \<Longrightarrow> c \<noteq> CHR ''#'' \<and> c \<noteq> CHR ''-''" for c
      using p assms(1) by (auto simp: plain_def)
    consider "b' = []" | c where "b' = [c]" | c d where "b' = [c, d]"
      | c d e r where "b' = c # d # e # r" by (metis list.exhaust)
    then show "b' @ t = [] \<or> hd (b' @ t) \<noteq> CHR ''#'' \<and>
        (\<not> is_word (hd (b' @ t)) \<or> length (b' @ t) < 3 \<or> (b' @ t) ! 2 \<noteq> CHR ''-'')"
      using h assms(2,3) by cases (auto simp: hd_conv_nth nth_Cons' numeral_2_eq_2)
  qed
  show "ref_match (st \<and> x = []) (b @ t) = None"
    using ab by (intro ref_match_None body disjI2)
      (auto simp: body intro!: body dest: list.set_sel(2))
qed

text \<open>C33: the intended effect on one reference: after a non-word character it gets the
  organisation and repository, and the text around it is unchanged.\<close>

theorem github_qualify_reference:
  assumes "org = [] \<or> \<not> is_digit (hd org)" "backslash \<notin> set org" "backslash \<notin> set name"
    and "plain pre" "plain post" "\<not> is_word c" "plain [c]"
    and "is_ref_prefix p" "ds \<noteq> []" "list_all is_digit ds" "post = [] \<or> \<not> is_word (hd post)"
  shows "github_qualify_references [pre @ [c] @ p @ ds @ post] org name =
    Inr [pre @ [c] @ org @ ''/'' @ name @ ''#'' @ ds @ post]"
proof -
  let ?t = "c # p @ ds @ post"
  have c: "c \<noteq> CHR ''#''" "c \<noteq> CHR ''-''" using assms(7) by (auto simp: plain_def)
  have p1: "?t ! 1 \<noteq> CHR ''-''" using assms(8) by (auto simp: is_ref_prefix_def gh_forms_def)
  have "ref_body ?t = None" using assms(6) c by (intro ref_body_None) simp
  then have "ref_match b ?t = Some (([c], p, ds), post)" for b
    using assms(6) ref_body_run [OF assms(8-11)] by (simp add: ref_match_def)
  then have t: "scan ref_match b ?t = Inl ([c], p, ds) # scan ref_match False post" for b
    by (rule ref.scan_match)
  have post: "scan ref_match False post = map Inr post"
    using plain_skip [OF assms(5), of "[]" False] by (simp add: ref.scan_Nil)
  have pre: "scan ref_match True (pre @ ?t) = map Inr pre @ scan ref_match (True \<and> pre = []) ?t"
    using assms(6) c p1 by (intro plain_skip [OF assms(4)]) auto
  have "qualify_line org name (pre @ ?t) = pre @ [c] @ org @ ''/'' @ name @ ''#'' @ ds @ post"
    unfolding qualify_line_def pre t post map_append list.map concat_append concat.simps piece_tgt_chars
    by (simp add: piece_tgt_def)
  then show ?thesis using qualify_references_ok [OF assms(1-3)] by simp
qed

theorem github_qualify_reference_witness:
  "github_qualify_references [''Fixes'' @ '' '' @ ''GH-'' @ ''27'' @ '' now''] ''lowRISC'' ''ibex'' =
     Inr [''Fixes'' @ '' '' @ ''lowRISC'' @ ''/'' @ ''ibex'' @ ''#'' @ ''27'' @ '' now'']"
  by (rule github_qualify_reference)
    (auto simp: plain_def backslash_def is_ref_prefix_def gh_forms_def char_class_defs)

lemma ref_body_hash: "CHR ''-'' \<notin> set s \<Longrightarrow> ref_body s \<noteq> None \<Longrightarrow> s \<noteq> [] \<and> hd s = CHR ''#''"
  using ref_body_None [of s] by (metis nth_mem not_less numeral_3_eq_3 less_le_trans lessI numeral_2_eq_2)

text \<open>A reference that is qualified already, with a word character before the hash, stays as
  it is.\<close>

lemma github_qualified_reference_kept:
  assumes "org = [] \<or> \<not> is_digit (hd org)" "backslash \<notin> set org" "backslash \<notin> set name"
    and "plain pre" "plain post" "is_word c"
  shows "github_qualify_references [pre @ [c] @ ''#'' @ post] org name = Inr [pre @ [c] @ ''#'' @ post]"
proof -
  let ?l = "pre @ [c] @ ''#'' @ post"
  have c: "plain [c]" using assms(6) by (auto simp: plain_def char_class_defs)
  have nohy: "CHR ''-'' \<notin> set ?l" using assms(4,5) c by (auto simp: plain_def)
  have only: "b = ''#'' @ post \<and> a = pre @ [c]" if "?l = a @ b" "b \<noteq> []" "hd b = CHR ''#''" for a b
  proof -
    have "a @ CHR ''#'' # tl b = (pre @ [c]) @ CHR ''#'' # post"
      using that by (cases b) simp_all
    moreover have "CHR ''#'' \<notin> set (pre @ [c])" using assms(4) c by (auto simp: plain_def)
    moreover have "CHR ''#'' \<notin> set (rev post)" "CHR ''#'' \<notin> set post"
      using assms(5) by (auto simp: plain_def)
    ultimately have "a = pre @ [c] \<and> tl b = post"
      by (auto simp: append_eq_append_conv2 append_eq_Cons_conv Cons_eq_append_conv)
    then show ?thesis using that by (cases b) auto
  qed
  have "scan ref_match True (?l @ []) = map Inr ?l @ scan ref_match (True \<and> ?l = []) []"
  proof (rule ref.scan_skip_all, intro allI impI)
    fix a b
    assume ab: "?l = a @ b" "b \<noteq> []"
    have body: "ref_body b' = None" if "?l = a' @ b'" "a' \<noteq> pre @ [c]" for a' b'
      using ref_body_hash [of b'] only [of a' b'] that nohy by (metis Un_iff set_append)
    have tlb: "?l = (a @ [hd b]) @ tl b" using ab by simp
    have "ref_body (tl b) = None \<or> is_word (hd b)"
      using body [OF tlb] assms(6) by auto
    moreover have "a = [] \<Longrightarrow> ref_body b = None" using body [OF ab(1)] by auto
    ultimately show "ref_match (True \<and> a = []) (b @ []) = None"
      using ab(2) by (cases b) (auto simp: ref_match_def)
  qed
  then have "scan ref_match True ?l = map Inr ?l" by (simp add: ref.scan_Nil)
  then have "qualify_line org name ?l = ?l"
    by (simp only: qualify_line_def piece_tgt_chars)
  then show ?thesis using qualify_references_ok [OF assms(1-3)] by simp
qed

section \<open>Organisations that start with a digit\<close>

lemma parse_template_digit:
  assumes "is_digit d" "backslash \<notin> set o'" "backslash \<notin> set name"
  shows "parse_template (repl_str (d # o') name) =
    (if is_oct d \<and> o' \<noteq> [] \<and> is_oct (hd o')
     then Inr (map Lit (char_of (64 + 8 * (code d - 48) + (code (hd o') - 48)) # tl o' @ ''/'' @ name @ ''#'')
               @ [Grp 2])
     else Inl ReError)"
proof -
  let ?w = "o' @ ''/'' @ name @ ''#''"
  let ?t = "?w @ [backslash, CHR ''2'']"
  have str: "repl_str (d # o') name = backslash # CHR ''1'' # d # ?t" by (simp add: repl_str_def)
  have ne: "?t \<noteq> []" "is_oct (hd ?t) \<longleftrightarrow> o' \<noteq> [] \<and> is_oct (hd o')"
    by (cases o'; simp add: is_oct_def code_def)+
  have group: "add_group (int10 [CHR ''1'', d]) m = Inl ReError" for m
    by (simp add: add_group_def int10_def undigits_def code_def)
  show ?thesis
  proof (cases "is_oct d \<and> o' \<noteq> [] \<and> is_oct (hd o')")
    case True
    then obtain e o2 where o': "o' = e # o2" "is_oct e" by (cases o') auto
    let ?v = "64 + 8 * (code d - 48) + (code e - 48)"
    have v: "undigits 8 (map (\<lambda>x. code x - 48) [CHR ''1'', d, e]) = ?v"
      by (simp add: undigits_def code_def)
    have "?v \<le> 255" using True o'(2) by (auto simp: is_oct_def)
    then have "parse_template (repl_str (d # o') name) =
        add_lits [char_of ?v] (parse_template ((o2 @ ''/'' @ name @ ''#'') @ [backslash, CHR ''2'']))"
      unfolding str using True o' assms(1) v
      by (subst parse_template.simps(2)) (simp add: Let_def)
    also have "\<dots> = Inr (map Lit (char_of ?v # o2 @ ''/'' @ name @ ''#'') @ [Grp 2])"
      using assms(2,3) o'(1)
      by (subst parse_template_middle) (auto simp: add_lits_def backslash_def)
    finally show ?thesis using True o' by simp
  next
    case False
    then have "parse_template (repl_str (d # o') name) = add_group (int10 [CHR ''1'', d]) (parse_template ?t)"
      unfolding str using assms(1) ne by (subst parse_template.simps(2)) auto
    with False group show ?thesis by simp
  qed
qed

lemma qualify_digit_org_error:
  assumes "is_digit d" "backslash \<notin> set o'" "backslash \<notin> set name" "log \<noteq> []"
    and "\<not> (is_oct d \<and> o' \<noteq> [] \<and> is_oct (hd o'))"
  shows "github_qualify_references log (d # o') name = Inl ReError"
proof -
  obtain l ls where "log = l # ls" using assms(4) by (cases log) auto
  then show ?thesis
    unfolding github_qualify_references_def parse_template_digit [OF assms(1-3)] if_not_P [OF assms(5)]
    by simp
qed

lemma slug_backslash: "github_parse_url s = Some (org, name) \<Longrightarrow> backslash \<notin> set org \<and> backslash \<notin> set name"
  unfolding github_parse_url_parts url_parts_def
  by (auto simp: list_all_iff is_slug_def char_class_defs backslash_def)

text \<open>C31: an organisation whose name starts with a digit breaks the replacement, because the digit
  is read as part of the reference to the first group: the call raises \<open>re.error\<close> on any log,
  unless the first two characters are octal digits, and then each reference loses the character
  before it and the two digits and gains one character with that octal code.\<close>

theorem github_qualify_references_digit_org:
  assumes "is_digit d" "backslash \<notin> set o'" "backslash \<notin> set name" "log \<noteq> []"
  shows "github_qualify_references log (d # o') name =
    (if is_oct d \<and> o' \<noteq> [] \<and> is_oct (hd o')
     then Inr (map (re_sub (\<lambda>(g1, p, ds). char_of (64 + 8 * (code d - 48) + (code (hd o') - 48))
                # tl o' @ ''/'' @ name @ ''#'' @ ds) ref_match) log)
     else Inl ReError)"
proof -
  have ex: "expand (map Lit w @ [Grp 2]) = (\<lambda>(g1, p, ds). w @ ds)" for w
    by (rule ext, induction w) (auto simp: expand_def)
  show ?thesis
  proof (cases "is_oct d \<and> o' \<noteq> [] \<and> is_oct (hd o')")
    case True
    show ?thesis
      unfolding github_qualify_references_def parse_template_digit [OF assms(1-3)] if_P [OF True]
      by (rule rmap_total) (simp only: rbind_simps ex append.simps append_assoc, simp)
  next
    case False
    then show ?thesis
      unfolding if_not_P [OF False] by (rule qualify_digit_org_error [OF assms])
  qed
qed

theorem github_qualify_references_digit_org_witness:
  "github_qualify_references [''no reference here''] ''3b1b'' ''manim'' = Inl ReError"
  using github_qualify_references_digit_org
    [of "CHR ''3''" "''b1b''" "''manim''" "[''no reference here'']"]
  by (simp add: char_class_defs is_oct_def backslash_def)

end
