(* ===== verification/UpdateProps.thy ===== *)
theory UpdateProps
  imports VendorProps GitHubProps "HOL-Library.Multiset"
begin

text \<open>
  The update of \<open>vendor.py\<close>: the lock file can be read back, the patches are applied in order, the
  commit's commands, and the error path of the log of changes.
\<close>

section \<open>The lock file\<close>

text \<open>The text of a lock file records the upstream completely: when the Hjson library reads back
  the document it wrote there, \<open>LockDesc\<close> gives the upstream of the description with the revision
  that was cloned.\<close>

lemma lock_text_read_back:
  assumes "hjson_loads e (lock_text e u rv) = Inr (lock_data u rv)"
  shows "LockDesc (hjson_loads e) \<lparr>h_name = n, h_text = lock_text e u rv\<rparr> = Inr (u\<lparr>u_rev := rv\<rparr>)"
proof -
  obtain d where d: "as_dict u = JDict d" "dict_get d ''url'' = Some (JStr (u_url u))"
    "dict_get d ''only_subdir'' = map_option JStr (u_only_subdir u)"
    by (cases "u_only_subdir u") (auto simp: as_dict_def)
  then have "Upstream n (JDict (dict_set ''rev'' (JStr rv) d)) = Inr (u\<lparr>u_rev := rv\<rparr>)"
    by (auto simp: Upstream_Inr_iff split: option.splits)
  then show ?thesis
    using assms d(1) by (simp add: LockDesc_def lock_data_def required_Inr_iff get_field_Some)
qed

section \<open>Patches\<close>

definition patch_command :: "env \<Rightarrow> path \<Rightarrow> path \<Rightarrow> string list" where
  "patch_command e basedir patchfile =
     [''git'', ''apply'', ''--directory'', path_str basedir, ''-p1'', path_str patchfile]
       @ (if verbose e then [''--verbose''] else [])"

lemma apply_patch_run:
  assumes "apply_patch e to p w = (r, w')"
  shows "trace w' = trace w @ [Run (patch_command e to p) (cwd w) []] \<and> cwd w' = cwd w
    \<and> (r = Inr () \<or> (\<exists>rc out err. rc \<noteq> 0 \<and> r = Inl (CalledProcessError (map Str (patch_command e to p)) rc out err)))"
proof -
  have "apply_patch e to p = bind (run e None (patch_command e to p) []) (\<lambda>_. ret ())"
    by (simp only: apply_patch_def patch_command_def)
  then show ?thesis using assms by (auto simp: bind_def run_here ret_def split: prod.splits if_splits) blast
qed

text \<open>The order of the entries of a directory is that of their names.\<close>

lemma path_name_mono:
  assumes "p \<in> set (glob dir pat w)" "q \<in> set (glob dir pat w)" "p \<le> q"
  shows "path_name p \<le> path_name q"
proof -
  obtain m n where "p = dir\<lparr>parts := parts dir @ [m]\<rparr>" "q = dir\<lparr>parts := parts dir @ [n]\<rparr>"
    using assms(1,2) by (auto simp: glob_def split: option.splits node.splits)
  then show ?thesis using assms(3) by (simp add: path_entries_le path_name_def)
qed

lemma sorted_names: "sorted (map path_name (sorted_patches dir w))"
  unfolding sorted_map sorted_patches_def
  by (rule sorted_wrt_mono_rel [OF path_name_mono sorted_sort]) simp_all

lemma for_each_patches:
  "for_each ps (apply_patch e to) w = (r, w') \<Longrightarrow>
     \<exists>k\<le>length ps. trace w' = trace w @ map (\<lambda>p. Run (patch_command e to p) (cwd w) []) (take k ps)
       \<and> (r = Inr () \<and> k = length ps \<or>
          0 < k \<and> (\<exists>rc out err. rc \<noteq> 0 \<and>
            r = Inl (CalledProcessError (map Str (patch_command e to (ps ! (k - 1)))) rc out err)))"
proof (induction ps arbitrary: w)
  case (Cons p ps)
  obtain r1 w1 where 1: "apply_patch e to p w = (r1, w1)" by fastforce
  note run = apply_patch_run [OF 1]
  show ?case
  proof (cases r1)
    case (Inl x)
    then have "r = Inl x" "w' = w1" using Cons.prems 1 by (simp_all add: bind_def)
    then show ?thesis using run Inl by (intro exI [of _ 1]) auto
  next
    case (Inr x)
    then have "for_each ps (apply_patch e to) w1 = (r, w')" using Cons.prems 1 by (simp add: bind_def)
    from Cons.IH [OF this] obtain k where k: "k \<le> length ps"
      "trace w' = trace w1 @ map (\<lambda>p. Run (patch_command e to p) (cwd w1) []) (take k ps)"
      "r = Inr () \<and> k = length ps \<or> 0 < k \<and> (\<exists>rc out err. rc \<noteq> 0 \<and>
         r = Inl (CalledProcessError (map Str (patch_command e to (ps ! (k - 1)))) rc out err))"
      by blast
    then show ?thesis using run by (intro exI [of _ "Suc k"]) (auto simp: nth_Cons')
  qed
qed (simp add: ret_def)

text \<open>C21: the patches of a directory, the entries whose names end in \<open>.patch\<close>, are applied in the order
  of their names, one command each; the first one that fails ends the import with its error.\<close>

theorem patches_in_order:
  assumes "apply_patches e (Some own) (Some dir) to w = (r, w')"
  shows "\<exists>ps k. k \<le> length ps \<and> sorted (map path_name ps)
    \<and> mset ps = mset (glob (path_join dir own) ''*.patch'' w)
    \<and> trace w' = trace w @ map (\<lambda>p. Run (patch_command e to p) (cwd w) []) (take k ps)
    \<and> (r = Inr () \<and> k = length ps \<or>
       0 < k \<and> (\<exists>rc out err. rc \<noteq> 0 \<and>
         r = Inl (CalledProcessError (map Str (patch_command e to (ps ! (k - 1)))) rc out err)))"
proof -
  let ?ps = "sorted_patches (path_join dir own) w"
  have "sorted (map path_name ?ps)" "mset ?ps = mset (glob (path_join dir own) ''*.patch'' w)"
    by (rule sorted_names) (simp add: sorted_patches_def)
  moreover have "for_each ?ps (apply_patch e to) w = (r, w')" using assms by (simp add: apply_patches_def)
  moreover note for_each_patches [OF calculation(3)]
  ultimately show ?thesis by (elim exE, intro exI [of _ ?ps]) (rule exI, elim conjE, intro conjI)
qed

definition ex_patches :: world where
  "ex_patches = \<lparr>tree = Dir [(''p'', Dir [(''2.patch'', File []), (''1.patch'', File []), (''README'', File [])])],
     cwd = [], trace = []\<rparr>"

theorem patches_in_order_witness:
  "\<exists>ps. mset ps = mset (glob \<lparr>root = [], parts = [''p'']\<rparr> ''*.patch'' ex_patches) \<and>
     sorted (map path_name ps) \<and>
     trace (snd (apply_patches (ex_env []) (Some (mk_path ''.'')) (Some \<lparr>root = [], parts = [''p'']\<rparr>) (mk_path ''t'') ex_patches))
       = map (\<lambda>p. Run (patch_command (ex_env []) (mk_path ''t'') p) [] []) ps"
proof -
  let ?a = "apply_patches (ex_env []) (Some (mk_path ''.'')) (Some \<lparr>root = [], parts = [''p'']\<rparr>) (mk_path ''t'') ex_patches"
  have j: "path_join \<lparr>root = [], parts = [''p'']\<rparr> (mk_path ''.'') = \<lparr>root = [], parts = [''p'']\<rparr>"
    by (simp add: path_join_def mk_path_def initial_slashes_def)
  have ok: "fst ?a = Inr ()" by code_simp
  have w: "trace ex_patches = []" "cwd ex_patches = []" by (simp_all add: ex_patches_def)
  have "?a = (Inr (), snd ?a)" using ok by (metis prod.collapse)
  from patches_in_order [OF this] show ?thesis unfolding j w by auto
qed

section \<open>The commit\<close>

lemma git_add_commit_run:
  assumes "git_add_commit e (p # ps) msg w = (r, w')"
  defines "base \<equiv> PathArg (path_str (path_parent p))"
  defines "add \<equiv> [Str ''git'', Str ''-C'', base, Str ''add''] @ map (\<lambda>p. PathArg (path_str (path_resolve p w))) (p # ps)"
    and "commit \<equiv> [Str ''git'', Str ''-C'', base, Str ''commit'', Str ''-s'', Str ''-F'', Str ''-'']"
  shows "(\<exists>rc out err. rc \<noteq> 0 \<and> r = Inl (CalledProcessError add rc out err)
      \<and> trace w' = trace w @ [Run (map arg_str add) (cwd w) []])
    \<or> (r = Inr () \<and> trace w' = trace w @
        [Run (map arg_str add) (cwd w) [], Run (map arg_str commit) (cwd w) msg])"
proof -
  have m: "git_add_commit e (p # ps) msg w =
      bind (run_args e add []) (\<lambda>_. ignore_failure (bind (run_args e commit msg) (\<lambda>_. ret ()))) w"
    by (simp add: git_add_commit_def Let_def base_def add_def commit_def)
  obtain rc out err t where a: "ext e (map arg_str add) (cwd w) [] (tree w) = (rc, out, err, t)" by (metis prod_cases4)
  let ?w1 = "emit (Run (map arg_str add) (cwd w) []) t w"
  obtain rc' out' err' t' where c: "ext e (map arg_str commit) (cwd w) msg t = (rc', out', err', t')" by (metis prod_cases4)
  show ?thesis
  proof (cases "rc = 0")
    case True
    then have "git_add_commit e (p # ps) msg w =
        (Inr (), emit (Run (map arg_str commit) (cwd w) msg) t' ?w1)"
      unfolding m using a c by (auto simp: bind_def run_args_def run_here ignore_failure_def catch_def ret_def raise_def)
    then show ?thesis using assms(1) by auto
  next
    case False
    then show ?thesis using assms(1) a unfolding m by (auto simp: bind_def run_args_def run_here catch_def raise_def)
  qed
qed

text \<open>C22: the commit of a run with \<open>--commit\<close> adds the target directory, the patch directory when the
  patches were refreshed, and the lock file, by their absolute paths, and commits them with the
  message on the input. A failing \<open>git add\<close> ends the run with its error and nothing is committed; a
  failing \<open>git commit\<close> is not an error of the run.\<close>

theorem commit_changes_outcome:
  assumes "a_commit a" "git_get_short_rev e sub rv w = (Inr sha, w1)"
    and "a_refresh a \<longrightarrow> d_patch_dir d = Some patches"
    and "commit_changes e a d lp sub rv shortlog w = (r, w')"
  defines "paths \<equiv> [d_target_dir d] @ (if a_refresh a then [patches] else []) @ [lp]"
    and "base \<equiv> PathArg (path_str (path_parent (d_target_dir d)))"
  defines "add \<equiv> [Str ''git'', Str ''-C'', base, Str ''add''] @ map (\<lambda>p. PathArg (path_str (path_resolve p w1))) paths"
    and "commit \<equiv> [Str ''git'', Str ''-C'', base, Str ''commit'', Str ''-s'', Str ''-F'', Str ''-'']"
  shows "(\<exists>rc out err. rc \<noteq> 0 \<and> r = Inl (CalledProcessError add rc out err)
      \<and> trace w' = trace w1 @ [Run (map arg_str add) (cwd w1) []])
    \<or> (r = Inr () \<and> trace w' = trace w1 @
        [Run (map arg_str add) (cwd w1) [],
         Run (map arg_str commit) (cwd w1) (commit_msg e d sha rv shortlog)])"
proof -
  have "git_add_commit e (d_target_dir d # (if a_refresh a then [patches] else []) @ [lp])
      (commit_msg e d sha rv shortlog) w1 = (r, w')"
    using assms(1-4) by (auto simp: commit_changes_def bind_def ret_def split: if_splits)
  from git_add_commit_run [OF this] show ?thesis by (simp add: add_def paths_def base_def commit_def)
qed

theorem commit_changes_outcome_witness:
  "let (r, w') = commit_changes (ex_env []) (ex_args True True) (ex_desc ''r'') ex_lock
       \<lparr>root = ''/'', parts = [''tmp'', ''x'']\<rparr> ''abc'' None ex_world
   in r = Inr () \<and> map (\<lambda>ev. case ev of Run argv l inp \<Rightarrow> argv ! 3 | _ \<Rightarrow> []) (drop 1 (trace w')) = [''add'', ''commit'']"
proof -
  let ?a = "ex_args True True" and ?up = "\<lparr>root = ''/'', parts = [''tmp'', ''x'']\<rparr>"
  let ?g = "git_get_short_rev (ex_env []) ?up ''abc'' ex_world"
  let ?c = "commit_changes (ex_env []) ?a (ex_desc ''r'') ex_lock ?up ''abc'' None ex_world"
  have f: "fst ?g = Inr ''abc''" "fst ?c = Inr ()" "length (trace (snd ?g)) = 1" by code_simp+
  have g: "?g = (Inr ''abc'', snd ?g)" and c: "?c = (Inr (), snd ?c)" using f by (metis prod.collapse)+
  have "a_commit ?a" "\<not> a_refresh ?a" by (simp_all add: ex_args_def)
  with commit_changes_outcome [OF _ g _ c] c f(3) show ?thesis by (auto simp: Let_def split: prod.splits)
qed

section \<open>Errors\<close>

text \<open>C30: an update of a GitHub repository whose organisation starts with a digit (and not with two
  octal digits) fails with \<open>re.error\<close> once there is a change to report: the target directory has
  been replaced by then, but the lock file has not been written.\<close>

theorem digit_org_update_fails:
  assumes "github_parse_url (u_url (d_upstream d)) = Some (dg # org, name)"
    and "is_digit dg" "\<not> (is_oct dg \<and> org \<noteq> [] \<and> is_oct (hd org))"
    and "a_update a"
    and "clone_git_repo e (u_url (d_upstream d)) dir (u_rev (d_upstream d)) w = (Inr rv, w1)"
    and "enter_subdir d dir w1 = (Inr sub, w2)" "import_from_upstream e d sub w2 = (Inr (), w3)"
    and "produce_shortlog e sub (d_mapping d) (u_rev u) rv w3 = (Inr log, w4)" "log \<noteq> []"
  shows "fetch e a d lp (Some u) False dir w = (Inl ReError, w4) \<and>
    (\<exists>evs. trace w4 = trace w @ evs \<and> (\<forall>l s. WriteFile l s \<notin> set evs))"
proof
  have "github_qualify_references log (dg # org) name = Inl ReError"
    using qualify_digit_org_error [OF assms(2) _ _ assms(9,3)] slug_backslash [OF assms(1)] by simp
  then have sl: "get_shortlog e True d (Some u) False sub rv w3 = (Inl ReError, w4)"
    using assms(1,8) by (simp add: get_shortlog_def bind_def lift_def)
  show "fetch e a d lp (Some u) False dir w = (Inl ReError, w4)"
    using assms(4-7) sl
    by (simp add: fetch_def Let_def updating_def check_revision_def bind_def ret_def)
  have b: "is_git ev \<Longrightarrow> before_lock ev" "is_import ev \<Longrightarrow> before_lock ev" for ev
    by (simp_all add: before_lock_events)
  have em: "emits before_lock (import_from_upstream e d sub)"
    by (rule emits_mono [OF emits_import]) (rule b(2))
  obtain a1 where 1: "trace w1 = trace w @ a1" "list_all before_lock a1"
    using emits_step [OF assms(5) emits_git(2) [where P = before_lock]] b by blast
  obtain a2 where 2: "trace w2 = trace w1 @ a2" "list_all before_lock a2"
    using emits_step [OF assms(6) emits_enter_subdir [where P = before_lock]] by blast
  obtain a3 where 3: "trace w3 = trace w2 @ a3" "list_all before_lock a3"
    using emits_step [OF assms(7) em] by blast
  obtain a4 where 4: "trace w4 = trace w3 @ a4" "list_all before_lock a4"
    using emits_step [OF assms(8) emits_git(5) [where P = before_lock]] b by blast
  have "trace w4 = trace w @ (a1 @ a2 @ a3 @ a4)" using 1 2 3 4 by simp
  then show "\<exists>evs. trace w4 = trace w @ evs \<and> (\<forall>l s. WriteFile l s \<notin> set evs)"
    using 1(2) 2(2) 3(2) 4(2)
    by (intro exI [of _ "a1 @ a2 @ a3 @ a4"]) (auto simp: list_all_iff before_lock_def)
qed

definition ex_digit_desc :: desc where
  "ex_digit_desc = (ex_desc ''r'')\<lparr>d_upstream := \<lparr>u_url = ''https://github.com/3b1b/manim'', u_rev = ''r'',
     u_only_subdir = None\<rparr>\<rparr>"

definition ex_tmp :: world where
  "ex_tmp = ex_world\<lparr>tree := Dir [(''w'', Dir [(''v'', Dir [(''ip.lock.hjson'', File [])])]),
     (''tmp'', Dir [(''x'', Dir [])])]\<rparr>"

theorem digit_org_update_fails_witness:
  "fst (fetch (ex_env []) (ex_args True False) ex_digit_desc ex_lock (Some (d_upstream ex_digit_desc)) False
     \<lparr>root = ''/'', parts = [''tmp'', ''x'']\<rparr> ex_tmp) = Inl ReError"
proof -
  let ?e = "ex_env []" and ?dir = "\<lparr>root = ''/'', parts = [''tmp'', ''x'']\<rparr>" and ?d = ex_digit_desc
  let ?c = "clone_git_repo ?e (u_url (d_upstream ?d)) ?dir (u_rev (d_upstream ?d)) ex_tmp"
  let ?s = "enter_subdir ?d ?dir (snd ?c)"
  let ?i = "import_from_upstream ?e ?d ?dir (snd ?s)"
  let ?l = "produce_shortlog ?e ?dir (d_mapping ?d) (u_rev (d_upstream ?d)) ''abc'' (snd ?i)"
  have r: "fst ?c = Inr ''abc''" "fst ?s = Inr ?dir" "fst ?i = Inr ()" "fst ?l = Inr [''abc'']" by code_simp+
  have "?c = (Inr ''abc'', snd ?c)" "?s = (Inr ?dir, snd ?s)" "?i = (Inr (), snd ?i)" "?l = (Inr [''abc''], snd ?l)"
    using r by (metis prod.collapse)+
  from digit_org_update_fails [OF _ _ _ _ this, of "CHR ''3''" "''b1b''" "''manim''"]
  have "github_parse_url (u_url (d_upstream ?d)) = Some (''3b1b'', ''manim'') \<Longrightarrow> ?thesis"
    by (simp add: ex_args_def char_class_defs is_oct_def)
  moreover have "github_parse_url (u_url (d_upstream ?d)) = Some (''3b1b'', ''manim'')" by code_simp
  ultimately show ?thesis .
qed

end
