(* ===== verification/RunProps.thy ===== *)
theory RunProps
  imports ImportProps UpdateProps
begin

text \<open>
  Whole runs of \<open>vendor.py\<close>, one stage composed with the next: a locked run whose clone ends at the
  locked revision returns and reproduces the sources, and what an update records is what the next
  run reads.
\<close>

section \<open>A locked run\<close>

text \<open>The stages of a run without \<open>--update\<close>, \<open>--refresh-patches\<close> and \<open>--commit\<close>, on the checkout.\<close>

lemma locked_run_stages:
  assumes "load_inputs e a w = (Inr (d, lp, Some u), w1)"
    and "\<not> a_update a" "\<not> a_refresh a" "\<not> a_commit a"
    and "put_at (mktemp e (tree w1)) (Dir []) (tree w1) = Some t1" "mktemp e (tree w1) = tmp"
    and "clone_git_repo e (u_url u) \<lparr>root = ''/'', parts = tmp\<rparr> (u_rev u) (emit (MkTemp tmp) t1 w1)
           = (Inr (u_rev u), w2)"
    and "enter_subdir (d\<lparr>d_upstream := u\<rparr>) \<lparr>root = ''/'', parts = tmp\<rparr> w2 = (Inr sub, w2)"
    and "import_from_upstream e (d\<lparr>d_upstream := u\<rparr>) sub w2 = (Inr (), w3)"
  shows "vendor e a w = (Inr (), emit (RmTemp tmp) (del_at tmp (tree w3)) w3)"
proof -
  have d: "resolve_upstream a d (Some u) = d\<lparr>d_upstream := u\<rparr>"
    using assms(2) by (simp add: resolve_upstream_def updating_def)
  have "fetch e a (d\<lparr>d_upstream := u\<rparr>) lp (Some u) ch \<lparr>root = ''/'', parts = tmp\<rparr> (emit (MkTemp tmp) t1 w1)
      = (Inr (), w3)" for ch
    using assms(2,4,7-9)
    by (simp add: fetch_def Let_def updating_def check_revision_def get_shortlog_def write_lock_def
        commit_changes_def bind_def ret_def)
  then show ?thesis
    unfolding vendor_loaded [OF assms(1)] d using assms(3-6)
    by (simp add: check_clean_def with_tempdir_def Let_def)
qed

lemma mapping_items_upstream [simp]: "mapping_items (d\<lparr>d_upstream := u\<rparr>) = mapping_items d"
  by (simp add: mapping_items_def split: option.splits)

text \<open>Where the sources lie in the checkout.\<close>

definition checkout_dir :: "upstream \<Rightarrow> loc \<Rightarrow> loc" where
  "checkout_dir u tmp = tmp @ (case u_only_subdir u of None \<Rightarrow> [] | Some s \<Rightarrow> parts (mk_path s))"

lemma enter_subdir_ok:
  assumes "d_upstream d = u"
    and "\<And>s. u_only_subdir u = Some s \<Longrightarrow>
      root (mk_path s) = [] \<and> is_dir \<lparr>root = ''/'', parts = checkout_dir u tmp\<rparr> w"
  shows "enter_subdir d \<lparr>root = ''/'', parts = tmp\<rparr> w = (Inr \<lparr>root = ''/'', parts = checkout_dir u tmp\<rparr>, w)"
  using assms by (cases "u_only_subdir u")
    (auto simp: enter_subdir_def ret_def checkout_dir_def path_join_def Let_def)

lemma is_dir_clean:
  assumes "list_all clean l" "is_directory (node_at l (tree w))"
  shows "is_dir \<lparr>root = ''/'', parts = l\<rparr> w"
proof -
  have c: "clean_path \<lparr>root = ''/'', parts = l\<rparr>" "loc_of \<lparr>root = ''/'', parts = l\<rparr> w = l"
    using assms(1) by (simp_all add: clean_path_def loc_of_def start_dir_def)
  then show ?thesis using stat_clean [OF c(1), of w] assms(2) dir_not_None [OF assms(2)]
    by (simp add: is_dir_def)
qed

lemma del_unrelated: "l \<noteq> [] \<Longrightarrow> unrelated l q \<Longrightarrow> node_at q (del_at l t) = node_at q t"
  using fs.get_del_other [of l] by (simp add: unrelated_def)

lemma unrelated_checkout: "unrelated tmp q \<Longrightarrow> unrelated (checkout_dir u tmp) q"
  using unrelated_append [of tmp q _ "[]"] by (simp add: checkout_dir_def)

text \<open>C2: a locked run comes to its end: when the clone ends at the locked revision, the checkout has
  the sources of the mapping (without patches), and nothing but directories stands on the way
  to the target, the program returns, whatever was in the target directory before; the files at or below
  each destination are exactly those of the checkout that are not excluded, and there is no other
  file in the target directory.\<close>

theorem locked_run_reproduces:
  fixes tmp :: loc and d :: desc and u :: upstream
  defines "bs \<equiv> checkout_dir u tmp" and "td \<equiv> d_target_dir d"
  assumes "load_inputs e a w = (Inr (d, lp, Some u), w1)"
    and "\<not> a_update a" "\<not> a_refresh a" "\<not> a_commit a"
    and "mktemp e (tree w1) = tmp" "tmp \<noteq> []" "put_at tmp (Dir []) (tree w1) = Some t1"
    and "clone_git_repo e (u_url u) \<lparr>root = ''/'', parts = tmp\<rparr> (u_rev u) (emit (MkTemp tmp) t1 w1)
           = (Inr (u_rev u), w2)"
    and "pred_option (\<lambda>s. root (mk_path s) = []) (u_only_subdir u)"
    and "list_all clean bs" "is_directory (node_at bs (tree w2))" "names_clean (tree w2)"
    and "clean_path td" "parts td \<noteq> []" "unrelated tmp (loc_of td w2)" "way_free (loc_of td w2) w2"
    and "is_directory (node_at (rev (start_dir td w2)) (tree w2))"
    and "list_all (plain_entry bs (tree w2)) (mapping_items d)"
    and "sorted_wrt (\<lambda>m m'. unrelated (parts (to_path m)) (parts (to_path m'))) (mapping_items d)"
  shows "\<exists>w'. vendor e a w = (Inr (), w')
    \<and> (\<forall>m\<in>set (mapping_items d). \<forall>ps s.
         node_at (loc_of td w2 @ parts (to_path m) @ ps) (tree w') = Some (File s) \<longleftrightarrow>
         node_at (bs @ parts (from_path m) @ ps) (tree w2) = Some (File s)
           \<and> \<not> excluded (d_exclude d) (parts (from_path m)) ps)
    \<and> (\<forall>q s. node_at (loc_of td w2 @ q) (tree w') = Some (File s) \<longrightarrow>
         (\<exists>m\<in>set (mapping_items d). \<exists>ps. q = parts (to_path m) @ ps))"
proof -
  let ?d = "d\<lparr>d_upstream := u\<rparr>"
  have same: "d_target_dir ?d = td" "d_exclude ?d = d_exclude d" by (cases d, simp add: td_def)+
  have sub: "enter_subdir ?d \<lparr>root = ''/'', parts = tmp\<rparr> w2 = (Inr \<lparr>root = ''/'', parts = bs\<rparr>, w2)"
    unfolding bs_def using assms(11) is_dir_clean [OF assms(12,13)]
    by (intro enter_subdir_ok) (cases d, auto simp: bs_def)
  have "unrelated bs (loc_of td w2)" unfolding bs_def by (rule unrelated_checkout [OF assms(17)])
  moreover have "bs \<noteq> []" using assms(8) by (simp add: bs_def checkout_dir_def)
  ultimately obtain w3 where w3: "import_from_upstream e ?d \<lparr>root = ''/'', parts = bs\<rparr> w2 = (Inr (), w3)"
    "\<forall>m\<in>set (mapping_items d). \<forall>ps s.
         node_at (loc_of td w2 @ parts (to_path m) @ ps) (tree w3) = Some (File s) \<longleftrightarrow>
         node_at (bs @ parts (from_path m) @ ps) (tree w2) = Some (File s)
           \<and> \<not> excluded (d_exclude d) (parts (from_path m)) ps"
    "\<forall>q s. node_at (loc_of td w2 @ q) (tree w3) = Some (File s) \<longrightarrow>
         (\<exists>m\<in>set (mapping_items d). \<exists>ps. q = parts (to_path m) @ ps)"
    using import_files [of bs w2 ?d e] assms(12,14-16,18-21) unfolding same mapping_items_upstream by blast
  have run: "vendor e a w = (Inr (), emit (RmTemp tmp) (del_at tmp (tree w3)) w3)"
    using locked_run_stages [OF assms(3-6)] assms(7,9,10) sub w3(1) by blast
  have "node_at (loc_of td w2 @ q) (del_at tmp (tree w3)) = node_at (loc_of td w2 @ q) (tree w3)" for q
    using unrelated_append [OF assms(17), of "[]" q] assms(8) by (intro del_unrelated) simp_all
  then show ?thesis using run w3(2,3) by simp
qed

text \<open>A working directory with a lock file and an old copy of the sources.\<close>

definition ex_locked :: env where
  "ex_locked = (ex_env [])\<lparr>hjson_loads := (\<lambda>s. if s = ''lock''
     then Inr (lock_data (d_upstream (ex_desc ''r'')) ''abc'') else Inr ex_doc)\<rparr>"

definition ex_vendored :: world where
  "ex_vendored = \<lparr>tree = Dir [(''w'', Dir [(''v'', Dir [(''ip.lock.hjson'', File ''lock''),
       (''ip'', Dir [(''old'', File ''old'')])])]), (''tmp'', Dir [])],
     cwd = [''w''], trace = []\<rparr>"

definition ex_upstream :: upstream where
  "ex_upstream = \<lparr>u_url = ''u'', u_rev = ''abc'', u_only_subdir = None\<rparr>"

lemma ex_vendored_load:
  "load_inputs ex_locked (ex_args False False) ex_vendored =
     (Inr (ex_desc ''r'', ex_lock, Some ex_upstream), ex_vendored)"
proof -
  have "Desc (hjson_loads ex_locked) (a_desc_file (ex_args False False)) (a_overrides (ex_args False False))
      = Inr (ex_desc ''r'')"
    unfolding ex_locked_def ex_args_def by code_simp
  moreover have "lock_file_path (ex_desc ''r'') = Inr ex_lock" by code_simp
  moreover have "read_file ex_lock ex_vendored = (Inr ''lock'', ex_vendored)" by code_simp
  moreover have "LockDesc (hjson_loads ex_locked) \<lparr>h_name = path_str ex_lock, h_text = ''lock''\<rparr> = Inr ex_upstream"
    unfolding ex_locked_def by code_simp
  ultimately show ?thesis by (simp add: load_inputs_def load_lock_def catch_def io_simps)
qed

definition ex_tmp_tree :: node where
  "ex_tmp_tree = Dir [(''w'', Dir [(''v'', Dir [(''ip.lock.hjson'', File ''lock''),
     (''ip'', Dir [(''old'', File ''old'')])])]), (''tmp'', Dir [(''x'', Dir [])])]"

definition ex_cloned_tree :: node where
  "ex_cloned_tree = Dir [(''w'', Dir [(''v'', Dir [(''ip.lock.hjson'', File ''lock''),
     (''ip'', Dir [(''old'', File ''old'')])])]),
     (''tmp'', Dir [(''x'', Dir [(''a'', Dir [(''f'', File ''text'')])])])]"

definition ex_cloned :: world where
  "ex_cloned = snd (clone_git_repo ex_locked ''u'' \<lparr>root = ''/'', parts = [''tmp'', ''x'']\<rparr> ''abc''
     (emit (MkTemp [''tmp'', ''x'']) ex_tmp_tree ex_vendored))"

lemma ex_cloned:
  "put_at [''tmp'', ''x''] (Dir []) (tree ex_vendored) = Some ex_tmp_tree"
  "clone_git_repo ex_locked ''u'' \<lparr>root = ''/'', parts = [''tmp'', ''x'']\<rparr> ''abc''
     (emit (MkTemp [''tmp'', ''x'']) ex_tmp_tree ex_vendored) = (Inr ''abc'', ex_cloned)"
  "tree ex_cloned = ex_cloned_tree" "cwd ex_cloned = [''w'']"
proof -
  show "put_at [''tmp'', ''x''] (Dir []) (tree ex_vendored) = Some ex_tmp_tree"
    "tree ex_cloned = ex_cloned_tree" "cwd ex_cloned = [''w'']"
    unfolding ex_locked_def by code_simp+
  have "fst (clone_git_repo ex_locked ''u'' \<lparr>root = ''/'', parts = [''tmp'', ''x'']\<rparr> ''abc''
     (emit (MkTemp [''tmp'', ''x'']) ex_tmp_tree ex_vendored)) = Inr ''abc''"
    unfolding ex_locked_def by code_simp
  then show "clone_git_repo ex_locked ''u'' \<lparr>root = ''/'', parts = [''tmp'', ''x'']\<rparr> ''abc''
     (emit (MkTemp [''tmp'', ''x'']) ex_tmp_tree ex_vendored) = (Inr ''abc'', ex_cloned)"
    unfolding ex_cloned_def by (metis prod.collapse)
qed

theorem locked_run_reproduces_witness:
  "\<exists>w'. vendor ex_locked (ex_args False False) ex_vendored = (Inr (), w')
    \<and> node_at [''w'', ''v'', ''ip'', ''b'', ''c'', ''f''] (tree w') = Some (File ''text'')
    \<and> node_at [''w'', ''v'', ''ip'', ''old''] (tree w') \<noteq> Some (File ''old'')"
proof -
  let ?d = "ex_desc ''r''" and ?l = "[''w'', ''v'', ''ip'']"
  have i: "d_target_dir ?d = \<lparr>root = [], parts = [''v'', ''ip'']\<rparr>"
    "mapping_items ?d = [\<lparr>from_path = \<lparr>root = [], parts = [''a'']\<rparr>,
       to_path = \<lparr>root = [], parts = [''b'', ''c'']\<rparr>, m_patch_dir = None\<rparr>]" "d_exclude ?d = [''.git'']"
    by (simp_all add: ex_desc_def mapping_items_def)
  have u: "u_url ex_upstream = ''u''" "u_rev ex_upstream = ''abc''" "u_only_subdir ex_upstream = None"
    by (simp_all add: ex_upstream_def)
  have c: "checkout_dir ex_upstream [''tmp'', ''x''] = [''tmp'', ''x'']" by (simp add: checkout_dir_def u)
  have l: "loc_of (d_target_dir ?d) ex_cloned = ?l" "rev (start_dir (d_target_dir ?d) ex_cloned) = [''w'']"
    by (simp_all add: i loc_of_def start_dir_def ex_cloned)
  have a: "\<not> a_update (ex_args False False)" "\<not> a_refresh (ex_args False False)"
    "\<not> a_commit (ex_args False False)" "mktemp ex_locked t = [''tmp'', ''x'']" for t
    by (simp_all add: ex_args_def ex_locked_def ex_env_def)
  have ne: "\<not> excluded [''.git''] [''a''] [''f'']"
    using fnmatch_literal [of "''.git''"] by (simp add: excluded_Cons literal_def)
  have n: "names_clean (tree ex_cloned)" "is_directory (node_at [''tmp'', ''x''] (tree ex_cloned))"
    "is_directory (node_at [''w''] (tree ex_cloned))" "way_free ?l ex_cloned"
    "list_all (plain_entry [''tmp'', ''x''] (tree ex_cloned)) (mapping_items ?d)"
    by (auto simp: ex_cloned ex_cloned_tree_def clean_iff way_free_def prefix_Cons i plain_entry_def
        mapping1_ok_def rel_clean_def)
  note run = locked_run_reproduces [OF ex_vendored_load a(1-4) _ ex_cloned(1), unfolded u c i(3), OF _ ex_cloned(2), unfolded l]
  have "list_all clean [''tmp'', ''x'']" "clean_path (d_target_dir ?d)" "parts (d_target_dir ?d) \<noteq> []"
    "unrelated [''tmp'', ''x''] ?l" "sorted_wrt (\<lambda>m m'. unrelated (parts (to_path m)) (parts (to_path m'))) (mapping_items ?d)"
    by (simp_all add: i clean_path_def clean_iff unrelated_def)
  note r = run [OF _ _ this(1) n(2,1) this(2-4) n(4,3,5) this(5)]
  obtain w' where w': "vendor ex_locked (ex_args False False) ex_vendored = (Inr (), w')"
    "\<forall>ps s. node_at (?l @ [''b'', ''c''] @ ps) (tree w') = Some (File s) \<longleftrightarrow>
       node_at ([''tmp'', ''x''] @ [''a''] @ ps) (tree ex_cloned) = Some (File s) \<and> \<not> excluded [''.git''] [''a''] ps"
    "\<forall>q s. node_at (?l @ q) (tree w') = Some (File s) \<longrightarrow> (\<exists>ps. q = [''b'', ''c''] @ ps)"
    using r by (auto simp: i)
  have "node_at [''w'', ''v'', ''ip'', ''b'', ''c'', ''f''] (tree w') = Some (File ''text'')"
    using w'(2) [rule_format, of "[''f'']" "''text''"] ne by (simp add: ex_cloned ex_cloned_tree_def)
  moreover have "node_at [''w'', ''v'', ''ip'', ''old''] (tree w') \<noteq> Some (File ''old'')"
    using w'(3) [rule_format, of "[''old'']" "''old''"] by auto
  ultimately show ?thesis using w'(1) by blast
qed

section \<open>An update and the run after it\<close>

text \<open>The description does not depend on the world; the lock file is read afresh.\<close>

lemma load_inputs_again:
  assumes "Desc (hjson_loads e) (a_desc_file a) (a_overrides a) = Inr d" "lock_file_path d = Inr lp"
    and "load_lock e lp w = (Inr lock, w)"
  shows "load_inputs e a w = (Inr (d, lp, lock), w)"
  using assms by (simp add: load_inputs_def catch_def io_simps)

lemma load_lock_present:
  assumes "clean_path lp" "node_at (loc_of lp w) (tree w) = Some (File s)"
    and "LockDesc (hjson_loads e) \<lparr>h_name = path_str lp, h_text = s\<rparr> = Inr u"
  shows "load_lock e lp w = (Inr (Some u), w)"
  using assms locate_clean_exists [OF assms(1), of w]
  by (simp add: load_lock_def catch_def read_file_def io_simps)

lemma write_lock_at:
  assumes "write_lock e True d lp rv w = (Inr (), w')" "clean_path lp"
  shows "node_at (loc_of lp w) (tree w') = Some (File (lock_text e (d_upstream d) rv)) \<and> cwd w' = cwd w"
proof -
  have wr: "write_file lp (lock_text e (d_upstream d) rv) w = (Inr (), w')"
    using assms(1) by (simp add: write_lock_def)
  from write_file_trace [OF this] obtain l where l: "locate lp w = Inr l"
    "node_at l (tree w') = Some (File (lock_text e (d_upstream d) rv))" by blast
  then have "l = loc_of lp w"
    using assms(2) by (simp add: locate_def os_walk_clean clean_path_def loc_of_def)
  then show ?thesis
    using l(2) emits_cwd [OF wr emits_write_file [where P = "\<lambda>_. True"]] by simp
qed

text \<open>What a successful update without a commit leaves behind.\<close>

lemma fetch_lock_left:
  assumes "fetch e a d lp lock ch dir w = (Inr (), w')" "updating a lock" "\<not> a_commit a" "clean_path lp"
  shows "\<exists>rv w1. clone_git_repo e (u_url (d_upstream d)) dir (u_rev (d_upstream d)) w = (Inr rv, w1)
    \<and> cwd w' = cwd w \<and> node_at (loc_of lp w) (tree w') = Some (File (lock_text e (d_upstream d) rv))"
  using assms(1)
proof (rule fetch_successE)
  fix rv sub sl w1 w2 w3 w4 w5 w6
  assume st: "clone_git_repo e (u_url (d_upstream d)) dir (u_rev (d_upstream d)) w = (Inr rv, w1)"
    "check_revision (updating a lock) lock rv w1 = (Inr (), w2)" "enter_subdir d dir w2 = (Inr sub, w3)"
    "import_from_upstream e d sub w3 = (Inr (), w4)"
    "get_shortlog e (updating a lock) d lock ch sub rv w4 = (Inr sl, w5)"
    "write_lock e (updating a lock) d lp rv w5 = (Inr (), w6)"
    "commit_changes e a d lp sub rv sl w6 = (Inr (), w')"
  let ?any = "\<lambda>_ :: event. True"
  have "cwd w5 = cwd w"
    using emits_cwd [OF st(1) emits_git(2) [where P = ?any]]
      emits_cwd [OF st(2) emits_check_revision [where P = ?any]]
      emits_cwd [OF st(3) emits_enter_subdir [where P = ?any]] emits_cwd [OF st(4) emits_import]
      emits_cwd [OF st(5) emits_get_shortlog [where P = ?any]] by simp
  moreover have "w' = w6" using st(7) assms(3) by (simp add: commit_changes_def ret_def)
  ultimately show ?thesis
    using write_lock_at [of e d lp rv w5 w6] st(1,6) assms(2,4) loc_of_cwd [of w5 w lp] by auto
qed

text \<open>C4: what an update records is what the next run uses: after a successful update (without a
  commit), loading the same description again gives the same description, and from the lock file the
  upstream of the description at the revision the clone ended at. So a run without \<open>--update\<close> after
  it fetches that revision, even when the description names a moving branch. The hypotheses are
  that the Hjson library reads back the document it wrote into a lock file, and that temporary
  directories are made away from it.\<close>

theorem update_then_locked:
  assumes "load_inputs e a w = (Inr (d, lp, lock), w1)" "updating a lock" "\<not> a_commit a"
    and "vendor e a w = (Inr (), w')" "clean_path lp"
    and "\<And>rv. hjson_loads e (lock_text e (d_upstream d) rv) = Inr (lock_data (d_upstream d) rv)"
    and "\<And>t. mktemp e t \<noteq> [] \<and> unrelated (mktemp e t) (loc_of lp w)"
  shows "\<exists>rv dir w2 w3.
    clone_git_repo e (u_url (d_upstream d)) dir (u_rev (d_upstream d)) w2 = (Inr rv, w3)
    \<and> load_inputs e a w' = (Inr (d, lp, Some ((d_upstream d)\<lparr>u_rev := rv\<rparr>)), w')"
  using assms(1,4)
proof (rule vendor_successE)
  fix l t1 w2 w3 w4
  assume st: "check_clean e a d w1 = (Inr (), w2)"
    "(if a_refresh a then refresh_patches e (resolve_upstream a d lock) else ret ()) w2 = (Inr (), w3)"
    "fetch e a (resolve_upstream a d lock) lp lock (changed_url d lock) \<lparr>root = ''/'', parts = l\<rparr>
       (emit (MkTemp l) t1 w3) = (Inr (), w4)"
    "w' = emit (RmTemp l) (del_at l (tree w4)) w4" "l = mktemp e (tree w3)"
  have d: "resolve_upstream a d lock = d"
    using assms(2) by (cases lock) (simp_all add: resolve_upstream_def)
  have "cwd w3 = cwd w"
    using emits_cwd [OF st(2) emits_if [OF emits_refresh emits_ret]]
      emits_cwd [OF st(1) emits_check_clean [where P = "\<lambda>_. True"]] load_inputs_world [OF assms(1)] by simp
  with fetch_lock_left [OF st(3) assms(2,3,5)] obtain rv w5 where
    c: "clone_git_repo e (u_url (d_upstream d)) \<lparr>root = ''/'', parts = l\<rparr> (u_rev (d_upstream d))
          (emit (MkTemp l) t1 w3) = (Inr rv, w5)"
    "cwd w4 = cwd w" "node_at (loc_of lp w) (tree w4) = Some (File (lock_text e (d_upstream d) rv))"
    unfolding d using loc_of_cwd [of "emit (MkTemp l) t1 w3" w lp] by auto
  have "node_at (loc_of lp w') (tree w') = Some (File (lock_text e (d_upstream d) rv))"
    using st(4,5) assms(7) c(2,3) loc_of_cwd [of w' w lp] del_unrelated [of l "loc_of lp w"] by simp
  from load_lock_present [OF assms(5) this lock_text_read_back [OF assms(6)]]
  have "load_lock e lp w' = (Inr (Some ((d_upstream d)\<lparr>u_rev := rv\<rparr>)), w')" .
  then show ?thesis using load_inputs_again load_inputs_Inr [OF assms(1)] c(1) by blast
qed

text \<open>A library that writes the revision only and reads it back, and a directory without a lock
  file.\<close>

definition ex_round :: env where
  "ex_round = (ex_env [])
     \<lparr>hjson_dumps := (\<lambda>j. case j of JDict [(k, JDict [a, (k', JStr rv)])] \<Rightarrow> rv | _ \<Rightarrow> []),
      hjson_loads := (\<lambda>s. if startswith s LOCK_FILE_HEADER
        then Inr (lock_data (d_upstream (ex_desc ''r'')) (butlast (drop (length LOCK_FILE_HEADER) s)))
        else Inr ex_doc)\<rparr>"

definition ex_fresh :: world where
  "ex_fresh = \<lparr>tree = Dir [(''w'', Dir [(''v'', Dir [])]), (''tmp'', Dir [])], cwd = [''w''], trace = []\<rparr>"

lemma ex_round_law:
  "hjson_loads ex_round (lock_text ex_round (d_upstream (ex_desc ''r'')) rv)
     = Inr (lock_data (d_upstream (ex_desc ''r'')) rv)"
proof -
  have "hjson_dumps ex_round (lock_data (d_upstream (ex_desc ''r'')) rv) = rv"
    by (simp add: ex_round_def lock_data_def as_dict_def ex_desc_def)
  then have "lock_text ex_round (d_upstream (ex_desc ''r'')) rv = LOCK_FILE_HEADER @ rv @ [newline]"
    by (simp add: lock_text_def)
  moreover have "startswith (LOCK_FILE_HEADER @ x) LOCK_FILE_HEADER" for x by (simp add: startswith_def)
  moreover have "hjson_loads ex_round s = (if startswith s LOCK_FILE_HEADER
        then Inr (lock_data (d_upstream (ex_desc ''r'')) (butlast (drop (length LOCK_FILE_HEADER) s)))
        else Inr ex_doc)" for s
    by (simp add: ex_round_def)
  ultimately show ?thesis by simp
qed

lemma ex_fresh_load:
  "load_inputs ex_round (ex_args False False) ex_fresh = (Inr (ex_desc ''r'', ex_lock, None), ex_fresh)"
proof -
  have "Desc (hjson_loads ex_round) (a_desc_file (ex_args False False)) (a_overrides (ex_args False False))
      = Inr (ex_desc ''r'')"
    unfolding ex_round_def ex_args_def by code_simp
  moreover have "lock_file_path (ex_desc ''r'') = Inr ex_lock" by code_simp
  moreover have "load_lock ex_round ex_lock ex_fresh = (Inr None, ex_fresh)" by code_simp
  ultimately show ?thesis by (rule load_inputs_again)
qed

lemma ex_fresh_run:
  "vendor ex_round (ex_args False False) ex_fresh =
     (Inr (), snd (vendor ex_round (ex_args False False) ex_fresh))"
proof -
  have "fst (vendor ex_round (ex_args False False) ex_fresh) = Inr ()" by code_simp
  then show ?thesis by (metis prod.collapse)
qed

theorem update_then_locked_witness:
  "\<exists>rv. let w' = snd (vendor ex_round (ex_args False False) ex_fresh) in
     load_inputs ex_round (ex_args False False) w' =
       (Inr (ex_desc ''r'', ex_lock, Some ((d_upstream (ex_desc ''r''))\<lparr>u_rev := rv\<rparr>)), w')"
proof -
  have "mktemp ex_round t \<noteq> [] \<and> unrelated (mktemp ex_round t) (loc_of ex_lock ex_fresh)" for t
    by (simp add: ex_round_def ex_env_def ex_lock_def ex_fresh_def loc_of_def start_dir_def unrelated_def)
  moreover have "updating (ex_args False False) None" "\<not> a_commit (ex_args False False)" "clean_path ex_lock"
    by (simp_all add: updating_def ex_args_def ex_lock_def clean_path_def clean_iff)
  ultimately show ?thesis
    using update_then_locked [OF ex_fresh_load _ _ ex_fresh_run] ex_round_law by (auto simp: Let_def)
qed

section \<open>Refreshing the patches\<close>

definition clone_commands :: "env \<Rightarrow> string \<Rightarrow> path \<Rightarrow> string \<Rightarrow> string list list" where
  "clone_commands e url dir rv =
     [[''git'', ''clone'', ''--no-single-branch''] @ quiet e @ [url, path_str dir],
      [''git'', ''-C'', path_str dir, ''checkout'', ''--force'', rv] @ quiet e,
      [''git'', ''-C'', path_str dir, ''rev-parse'', ''HEAD'']]"

lemma run_here_Inr:
  "run e None argv inp w = (Inr x, w') \<Longrightarrow>
     trace w' = trace w @ [Run argv (cwd w) inp] \<and> cwd w' = cwd w"
  by (auto simp: run_here split: prod.splits if_splits)

lemma clone_trace:
  assumes "clone_git_repo e url dir rv w = (Inr x, w')"
  shows "trace w' = trace w @ map (\<lambda>c. Run c (cwd w) []) (clone_commands e url dir rv) \<and> cwd w' = cwd w"
  using assms unfolding clone_git_repo_def bind_Inr_iff clone_commands_def
  by (auto simp: ret_def dest!: run_here_Inr)

lemma unlink_Inr:
  assumes "unlink p w = (Inr u, w')" "clean_path p"
  shows "trace w' = trace w @ [Unlink (loc_of p w)] \<and> cwd w' = cwd w"
proof -
  have "l = loc_of p w" if "locate p w = Inr l" for l
    using that assms(2) by (simp add: locate_def os_walk_clean clean_path_def loc_of_def)
  then show ?thesis using assms(1)
    by (auto simp: unlink_def split: sum.splits option.splits node.splits)
qed

lemma unlink_all_trace:
  "for_each ps unlink w = (Inr u, w') \<Longrightarrow> list_all clean_path ps \<Longrightarrow>
     trace w' = trace w @ map (\<lambda>p. Unlink (loc_of p w)) ps \<and> cwd w' = cwd w"
proof (induction ps arbitrary: w)
  case (Cons p ps)
  then obtain w1 where w1: "unlink p w = (Inr (), w1)" "for_each ps unlink w1 = (Inr u, w')"
    by (auto simp: bind_Inr_iff)
  have 1: "trace w1 = trace w @ [Unlink (loc_of p w)]" "cwd w1 = cwd w"
    using unlink_Inr [OF w1(1)] Cons.prems(2) by simp_all
  then show ?case using Cons.IH [OF w1(2)] Cons.prems(2) loc_of_cwd [OF 1(2)] by simp
qed (simp add: ret_def)

lemma glob_clean:
  assumes "clean_path dir" "names_clean (tree w)"
  shows "list_all clean_path (glob dir pat w)"
proof (cases "stat dir w")
  case (Some n)
  have "clean c" if n: "n = Dir es" and c: "c \<in> set (dict_keys es)" for es c
  proof -
    obtain l where "node_at l (tree w) = Some n" using Some by (auto simp: stat_def split: sum.splits)
    then have "entries_clean es" using names_clean_at [OF assms(2)] n by fastforce
    moreover obtain m where "dict_get es c = Some m"
      using c map_of_eq_None_iff [of es c] by (auto simp: dict_keys_def dict_get_def)
    ultimately show ?thesis using entries_clean_get by blast
  qed
  then show ?thesis using Some assms(1)
    by (cases n) (auto simp: glob_def list_all_iff clean_path_def)
qed (simp add: glob_def)

text \<open>C23: a successful refresh of the patches does exactly this: it removes the entries of the patch
  directory whose names end in \<open>.patch\<close>, clones the repository of the patches at the patched revision
  into a temporary directory, has \<open>git\<close>, running in that clone, write its commits between the two
  revisions as patches into the patch directory (by its absolute path), and removes the temporary
  directory. Temporary directories are given by proper components, as the library makes them.\<close>

theorem refresh_patches_steps:
  assumes "refresh_patches e d w = (Inr (), w')"
    and "\<And>dir. d_patch_dir d = Some dir \<Longrightarrow> clean_path dir" "names_clean (tree w)"
    and "\<And>t. list_all clean (mktemp e t)"
  shows "\<exists>repo dir l. d_patch_repo d = Some repo \<and> d_patch_dir d = Some dir
    \<and> trace w' = trace w
      @ map (\<lambda>p. Unlink (loc_of p w)) (glob dir ''*.patch'' w)
      @ [MkTemp l]
      @ map (\<lambda>c. Run c (cwd w) []) (clone_commands e (pr_url repo) \<lparr>root = ''/'', parts = l\<rparr> (rev_patched repo))
      @ [Run ([''git'', ''format-patch'', ''--no-signature'', ''--no-stat'', ''-o'',
               path_str (path_resolve dir w),
               ''origin/'' @ rev_base repo @ ''..'' @ ''origin/'' @ rev_patched repo] @ quiet e) l [],
         RmTemp l]"
proof -
  obtain repo dir w1 where rd: "d_patch_repo d = Some repo" "d_patch_dir d = Some dir"
    "for_each (glob dir ''*.patch'' w) unlink w = (Inr (), w1)"
    "export_patches e (pr_url repo) dir (rev_base repo) (rev_patched repo) w1 = (Inr (), w')"
    using assms(1) by (auto simp: refresh_patches_def raise_def bind_Inr_iff split: option.splits)
  have 1: "trace w1 = trace w @ map (\<lambda>p. Unlink (loc_of p w)) (glob dir ''*.patch'' w)" "cwd w1 = cwd w"
    using unlink_all_trace [OF rd(3) glob_clean [OF assms(2) [OF rd(2)] assms(3)]] by simp_all
  from rd(4)[unfolded export_patches_def] obtain l t1 w2 where
    x: "bind (clone_git_repo e (pr_url repo) \<lparr>root = ''/'', parts = l\<rparr> (rev_patched repo)) (\<lambda>_ w.
       bind (run e (Some \<lparr>root = ''/'', parts = l\<rparr>)
               ([''git'', ''format-patch'', ''--no-signature'', ''--no-stat'', ''-o'',
                 path_str (path_resolve dir w),
                 ''origin/'' @ rev_base repo @ ''..'' @ ''origin/'' @ rev_patched repo] @ quiet e) [])
         (\<lambda>_. ret ()) w) (emit (MkTemp l) t1 w1) = (Inr (), w2)"
    "w' = emit (RmTemp l) (del_at l (tree w2)) w2" "l = mktemp e (tree w1)"
    by (rule with_tempdir_Inr)
  then obtain rv w3 where c: "clone_git_repo e (pr_url repo) \<lparr>root = ''/'', parts = l\<rparr> (rev_patched repo)
      (emit (MkTemp l) t1 w1) = (Inr rv, w3)"
    and f: "\<exists>out. run e (Some \<lparr>root = ''/'', parts = l\<rparr>)
               ([''git'', ''format-patch'', ''--no-signature'', ''--no-stat'', ''-o'',
                 path_str (path_resolve dir w3),
                 ''origin/'' @ rev_base repo @ ''..'' @ ''origin/'' @ rev_patched repo] @ quiet e) [] w3
      = (Inr out, w2)"
    unfolding bind_Inr_iff by (auto simp: bind_Inr_iff ret_def)
  have c3: "trace w3 = trace w1 @ [MkTemp l] @ map (\<lambda>c. Run c (cwd w) [])
      (clone_commands e (pr_url repo) \<lparr>root = ''/'', parts = l\<rparr> (rev_patched repo))" "cwd w3 = cwd w"
    using clone_trace [OF c] 1(2) by simp_all
  have "path_resolve dir w3 = path_resolve dir w" using c3(2) by (simp add: path_resolve_def start_dir_def)
  moreover have "k = l" if "locate \<lparr>root = ''/'', parts = l\<rparr> w3 = Inr k" for k
    using that x(3) assms(4) by (simp add: locate_def start_dir_def os_walk_clean)
  ultimately have "trace w2 = trace w3 @ [Run ([''git'', ''format-patch'', ''--no-signature'', ''--no-stat'', ''-o'',
               path_str (path_resolve dir w),
               ''origin/'' @ rev_base repo @ ''..'' @ ''origin/'' @ rev_patched repo] @ quiet e) l []]"
    using f by (auto simp: run_def run_in_def Let_def split: option.splits sum.splits node.splits prod.splits if_splits)
  then show ?thesis using rd(1,2) 1(1) c3(1) x(2)
    by (intro exI [of _ repo] exI [of _ dir] exI [of _ l]) simp
qed

definition ex_refresh_desc :: desc where
  "ex_refresh_desc = (ex_desc ''r'')\<lparr>d_patch_dir := Some \<lparr>root = [], parts = [''v'', ''p'']\<rparr>,
     d_patch_repo := Some \<lparr>pr_url = ''u'', rev_base = ''b'', rev_patched = ''q''\<rparr>, d_mapping := None\<rparr>"

definition ex_refresh_world :: world where
  "ex_refresh_world = ex_world\<lparr>tree := Dir [(''w'', Dir [(''v'', Dir [(''p'', Dir [(''1.patch'', File []),
     (''README'', File [])])])]), (''tmp'', Dir [])]\<rparr>"

theorem refresh_patches_steps_witness:
  "\<exists>l argv. let evs = trace (snd (refresh_patches (ex_env []) ex_refresh_desc ex_refresh_world))
   in hd evs = Unlink [''w'', ''v'', ''p'', ''1.patch''] \<and> length evs = 7
     \<and> evs ! 1 = MkTemp l \<and> evs ! 5 = Run argv l [] \<and> argv ! 1 = ''format-patch''"
proof -
  let ?r = "refresh_patches (ex_env []) ex_refresh_desc ex_refresh_world"
  have dir: "d_patch_dir ex_refresh_desc = Some \<lparr>root = [], parts = [''v'', ''p'']\<rparr>"
    by (simp add: ex_refresh_desc_def)
  have g: "glob \<lparr>root = [], parts = [''v'', ''p'']\<rparr> ''*.patch'' ex_refresh_world
      = [\<lparr>root = [], parts = [''v'', ''p'', ''1.patch'']\<rparr>]" by code_simp
  have w: "cwd ex_refresh_world = [''w'']" "trace ex_refresh_world = []"
    by (simp_all add: ex_refresh_world_def ex_world_def)
  have "fst ?r = Inr ()" by code_simp
  then have r: "?r = (Inr (), snd ?r)" by (metis prod.collapse)
  have "names_clean (tree ex_refresh_world)" by (simp add: ex_refresh_world_def clean_iff)
  moreover have "clean_path p" if "d_patch_dir ex_refresh_desc = Some p" for p
    using that dir by (auto simp: clean_path_def clean_iff)
  moreover have "list_all clean (mktemp (ex_env []) t)" for t by (simp add: ex_env_def clean_iff)
  ultimately show ?thesis
    using refresh_patches_steps [OF r] dir
    by (auto simp: g w clone_commands_def loc_of_def start_dir_def)
qed

end
