(* ===== verification/Confine.thy ===== *)
theory Confine
  imports Steps RunProps
begin

text \<open>
  Where the runs of \<open>vendor.py\<close> work: no file is written, copied or removed but in the target directory,
  at the lock file's place and in the patch directory, and a run in the locked mode leaves the lock
  file as it was.
\<close>

section \<open>Where a run works\<close>

text \<open>The places of the description \<open>d\<close>, the lock file path \<open>lp\<close> and the working directory \<open>c\<close>: commands
  are \<open>git\<close>; directories are made on the way to the target directory and in it; only the target
  directory is removed, and only into it are sources copied; only patches of the patch directory are
  unlinked, on request; the only file that is written is the lock file, when updating.\<close>

definition inside :: "env \<Rightarrow> args \<Rightarrow> bool \<Rightarrow> desc \<Rightarrow> path \<Rightarrow> loc \<Rightarrow> event \<Rightarrow> bool" where
  "inside e a update d lp c ev \<longleftrightarrow>
     (case ev of
        Run argv l inp \<Rightarrow> argv \<noteq> [] \<and> hd argv = ''git''
      | MkDir l \<Rightarrow> prefix (place c (d_target_dir d)) l \<or>
          (\<exists>ps. prefix ps (parts (d_target_dir d)) \<and> l = place c ((d_target_dir d)\<lparr>parts := ps\<rparr>))
      | RmTree l \<Rightarrow> l = place c (d_target_dir d)
      | CopyFile a l \<Rightarrow> prefix (place c (d_target_dir d)) l
      | CopyTree a l \<Rightarrow> prefix (place c (d_target_dir d)) l
      | Unlink l \<Rightarrow> a_refresh a \<and>
          (\<exists>p n. d_patch_dir d = Some p \<and> l = place c p @ [n @ ''.patch''])
      | WriteFile l s \<Rightarrow> update \<and> l = place c lp
      | MkTemp l \<Rightarrow> l \<in> range (mktemp e)
      | RmTemp l \<Rightarrow> l \<in> range (mktemp e))"

lemma inside_simps [simp]:
  "inside e a u d lp c (Run (''git'' # as) l inp)" "inside e a u d lp c (RmTree (place c (d_target_dir d)))"
  "inside e a u d lp c (MkTemp (mktemp e t))" "inside e a u d lp c (RmTemp (mktemp e t))"
  by (simp_all add: inside_def)

lemma rel_clean_wf: "rel_clean p \<Longrightarrow> path_wf p"
  by (auto simp: rel_clean_def path_wf_def list_all_iff cleanD)

lemma place_append: "list_all clean qs \<Longrightarrow> place c (p\<lparr>parts := parts p @ qs\<rparr>) = place c p @ qs"
  by (simp add: place_def walk_append walk_clean)

lemma mkdir_inside:
  assumes "list_all clean qs" "prefix ps (parts (d_target_dir d) @ qs)"
  shows "inside e a u d lp c (MkDir (place c ((d_target_dir d)\<lparr>parts := ps\<rparr>)))"
proof (cases "prefix ps (parts (d_target_dir d))")
  case True
  then show ?thesis by (auto simp: inside_def)
next
  case False
  then obtain qs' where "ps = parts (d_target_dir d) @ qs'" "prefix qs' qs"
    using assms(2) by (auto simp: prefix_append)
  moreover from this(2) have "list_all clean qs'"
    using assms(1) by (auto simp: prefix_def)
  ultimately show ?thesis by (simp add: inside_def place_append)
qed

lemma mapping_items_ok: "desc_inv d \<Longrightarrow> m \<in> set (mapping_items d) \<Longrightarrow> mapping1_ok m"
  by (auto simp: desc_inv_def mapping_items_def list_all_iff split: option.splits)

lemma stays_apply_patches:
  assumes "\<And>as l inp. P (Run (''git'' # as) l inp)"
  shows "stays e c P (apply_patches e own dir to)"
proof (rule within_pointwise)
  fix w :: world
  let ?m = "case own of None \<Rightarrow> ret () | Some o' \<Rightarrow> (case dir of None \<Rightarrow> raise TypeError
    | Some d \<Rightarrow> for_each (sorted_patches (path_join d o') w) (apply_patch e to))"
  have "stays e c P ?m"
    by (intro within_option within_ret within_raise within_for_each stays_git assms)
  then show "\<exists>m. stays e c P m \<and> apply_patches e own dir to w = m w"
    by (intro exI [of _ ?m]) (simp add: apply_patches_def split: option.splits)
qed

lemma stays_entry:
  assumes "desc_inv d" "mapping1_ok m"
  shows "stays e c (inside e a u d lp c) (Mapping1_import_from_upstream e m up (d_target_dir d) excl pd)"
proof -
  let ?td = "d_target_dir d" and ?qs = "parts (to_path m)" and ?P = "inside e a u d lp c"
  let ?to = "path_join ?td (to_path m)"
  have qs: "list_all clean ?qs" and rel: "root (to_path m) = []"
    using assms(2) by (simp_all add: mapping1_ok_def rel_clean_def)
  then have to: "?to = ?td\<lparr>parts := parts ?td @ ?qs\<rparr>" by (simp add: path_join_rel)
  have wf: "path_wf ?to"
    using assms by (simp add: desc_inv_def mapping1_ok_def rel_clean_wf)
  have pl: "place c ?to = place c ?td @ ?qs" unfolding to by (rule place_append [OF qs])
  have dirs: "?P (MkDir (place c (?to\<lparr>parts := ps\<rparr>)))" if "prefix ps (parts ?to)" for ps
    using mkdir_inside [OF qs] that by (simp add: to)
  have up: "?P (MkDir (place c ((path_parent ?to)\<lparr>parts := ps\<rparr>)))" if "prefix ps (parts (path_parent ?to))" for ps
  proof -
    have "prefix ps (parts ?to)"
      using that prefix_order.trans [OF _ prefixeq_butlast] by (simp add: path_parent_def)
    from dirs [OF this] show ?thesis by (simp add: path_parent_def)
  qed
  have copy: "stays e c ?P (copy_sources up src ?to excl)" for src
  proof (rule within_pointwise)
    fix w :: world
    let ?m = "if is_file src w then copy_file src ?to
      else copytree src ?to (ignore_patterns (abs_str (cwd w)) (path_str up) excl)"
    have "stays e c ?P ?m"
      by (intro within_if stays_copy_file stays_copytree wf dirs file_name)
        (auto simp: inside_def pl prefix_def)
    then show "\<exists>m. stays e c ?P m \<and> copy_sources up src ?to excl w = m w"
      by (intro exI [of _ ?m]) (simp add: copy_sources_def)
  qed
  show ?thesis unfolding Mapping1_import_from_upstream_def Let_def
    by (intro within_bind stays_mkdir_parents path_parent_wf wf up copy stays_apply_patches) simp_all
qed

lemma stays_import: "desc_inv d \<Longrightarrow> stays e c (inside e a u d lp c) (import_from_upstream e d up)"
  unfolding import_from_upstream_def
  by (intro within_bind stays_rmtree within_for_each stays_entry mapping_items_ok) (simp_all add: desc_inv_def)

lemma glob_entry: "p \<in> set (glob dir pat w) \<Longrightarrow> \<exists>n. p = dir\<lparr>parts := parts dir @ [n]\<rparr> \<and> fnmatch n pat"
  by (auto simp: glob_def split: option.splits node.splits)

lemma patch_entry:
  assumes "p \<in> set (glob dir ''*.patch'' w)"
  shows "\<exists>n. p = dir\<lparr>parts := parts dir @ [n @ ''.patch'']\<rparr>"
  using glob_entry [OF assms] fnmatch_star_literal [of "''.patch''"] by (auto simp: literal_def)

lemma stays_refresh:
  assumes "desc_inv d" "a_refresh a"
  shows "stays e c (inside e a u d lp c) (refresh_patches e d)"
proof -
  let ?P = "inside e a u d lp c"
  have x: "stays e c ?P (export_patches e url dir r1 r2)" for url dir r1 r2
  proof -
    have "stays e c ?P (\<lambda>w. bind (run e (Some k)
               ([''git'', ''format-patch'', ''--no-signature'', ''--no-stat'', ''-o'',
                 path_str (path_resolve dir w),
                 ''origin/'' @ r1 @ ''..'' @ ''origin/'' @ r2] @ quiet e) []) (\<lambda>_. ret ()) w)" for k
      unfolding append.simps by (rule within_look) (intro within_bind stays_run within_ret inside_simps)
    then show ?thesis unfolding export_patches_def
      by (intro stays_with_tempdir within_bind stays_git inside_simps)
  qed
  have un: "stays e c ?P (unlink p)" if "d_patch_dir d = Some dir" "p \<in> set (glob dir ''*.patch'' w)" for p dir w
  proof -
    note entry = patch_entry [OF that(2)]
    from entry obtain n where "p = dir\<lparr>parts := parts dir @ [n @ ''.patch'']\<rparr>" by blast
    moreover have "path_wf dir" using assms(1) that(1) by (simp add: desc_inv_def)
    moreover have "?P (Unlink (place c dir @ [n @ ''.patch'']))"
      using assms(2) that(1) by (auto simp: inside_def)
    ultimately show ?thesis using stays_unlink [of dir "n @ ''.patch''"] by simp
  qed
  have "stays e c ?P (\<lambda>w. bind (for_each (glob dir ''*.patch'' w) unlink) (\<lambda>_. export_patches e url dir r1 r2) w)"
    if "d_patch_dir d = Some dir" for dir url r1 r2
    by (rule within_look) (intro within_bind within_for_each un [OF that] x)
  then show ?thesis unfolding refresh_patches_def
    by (intro within_option within_raise)
qed

lemma stays_fetch:
  assumes "desc_inv d" "path_wf lp"
  shows "stays e c (inside e a (updating a lock) d lp c) (fetch e a d lp lock ch dir)"
proof -
  let ?P = "inside e a (updating a lock) d lp c"
  have w: "stays e c ?P (write_lock e (updating a lock) d lp rv)" for rv
    unfolding write_lock_def
    by (intro within_if within_ret stays_write_file assms(2)) (simp add: inside_def)
  have r: "stays e c ?P (check_revision (updating a lock) lock rv)" for rv
    unfolding check_revision_def by (intro within_option within_if within_ret within_raise)
  have s: "stays e c ?P (enter_subdir d dir)"
    by (rule within_action) (auto simp: enter_subdir_def Let_def io_simps split: option.splits)
  have g: "stays e c ?P (get_shortlog e (updating a lock) d lock ch sub rv)" for sub rv
    unfolding get_shortlog_def
    by (intro within_option within_if within_ret within_bind stays_git within_lift inside_simps)
  have k: "stays e c ?P (commit_changes e a d lp sub rv sl)" for sub rv sl
    unfolding commit_changes_def
    by (intro within_if within_bind within_option within_ret within_raise stays_git inside_simps)
  show ?thesis unfolding fetch_def Let_def
    by (intro within_bind stays_git inside_simps w r s g k stays_import assms(1))
qed

lemma inside_upstream: "inside e a u (d\<lparr>d_upstream := x\<rparr>) = inside e a u d"
proof -
  have same: "d_target_dir (d\<lparr>d_upstream := x\<rparr>) = d_target_dir d" "d_patch_dir (d\<lparr>d_upstream := x\<rparr>) = d_patch_dir d"
    by (cases d, simp)+
  show ?thesis unfolding inside_def [abs_def] same by (rule refl)
qed

lemma desc_inv_upstream: "desc_inv d \<Longrightarrow> desc_inv (d\<lparr>d_upstream := x\<rparr>)"
  by (cases d) (simp add: desc_inv_def)

lemma load_inputs_same: "load_inputs e a w = (r, w1) \<Longrightarrow> w1 = w"
proof -
  assume l: "load_inputs e a w = (r, w1)"
  have "within (cwd w) (\<lambda>_ _ _. False) (load_lock e p)" for p
    unfolding load_lock_def
    by (intro within_catch within_bind within_read_file within_lift within_ret)
      (auto split: exn.splits intro: within_ret)
  then have "within (cwd w) (\<lambda>_ _ _. False) (load_inputs e a)"
    unfolding load_inputs_def
    by (intro within_catch within_bind within_lift)
      (auto split: exn.splits intro: within_ret within_raise)
  from withinD [OF this refl l] show ?thesis
    by (cases rule: converse_rtranclpE) (auto simp: move_def)
qed

lemma vendor_moves:
  assumes "load_inputs e a w = (Inr (d, lp, lock), w1)"
  shows "moves (\<lambda>ev t t'. inside e a (updating a lock) d lp (cwd w) ev \<and> effect e ev t t')
    w (snd (vendor e a w))"
proof -
  let ?c = "cwd w" and ?d = "resolve_upstream a d lock"
  let ?P = "inside e a (updating a lock) d lp ?c"
  have inv: "desc_inv d" "path_wf lp" using load_inputs_wf [OF assms] by simp_all
  have d: "desc_inv ?d" using inv(1) by (simp add: resolve_upstream_def desc_inv_upstream split: option.split)
  have same: "inside e a u d lp k = inside e a u ?d lp k" for u k
    by (simp add: resolve_upstream_def inside_upstream split: option.split)
  have f: "stays e ?c ?P (fetch e a ?d lp lock ch dir)" for ch dir
    unfolding same by (rule stays_fetch [OF d inv(2)])
  have r: "stays e ?c ?P (refresh_patches e ?d)" if "a_refresh a"
    unfolding same by (rule stays_refresh [OF d that])
  have k: "stays e ?c ?P (check_clean e a d)"
    unfolding check_clean_def by (intro within_if within_bind within_ret within_raise stays_git inside_simps)
  have "stays e ?c ?P (bind (check_clean e a d) (\<lambda>_.
    bind (if a_refresh a then refresh_patches e ?d else ret ()) (\<lambda>_.
    with_tempdir e (fetch e a ?d lp lock (changed_url d lock)))))"
    by (intro within_bind k within_if r within_ret stays_with_tempdir f inside_simps)
  then show ?thesis
    unfolding vendor_loaded [OF assms] load_inputs_same [OF assms] within_def by simp
qed

text \<open>C6: no run, successful or not, works outside its places: besides running \<open>git\<close> and making and
  removing temporary directories, it makes directories on the way to the target directory, removes the
  target directory, copies sources into it, unlinks \<open>.patch\<close> entries of the patch directory when that is
  asked for, and writes the lock file when updating, all at the places their paths denote from the
  working directory.\<close>

theorem vendor_stays_inside:
  assumes "load_inputs e a w = (Inr (d, lp, lock), w1)"
  shows "\<exists>evs. trace (snd (vendor e a w)) = trace w @ evs
    \<and> list_all (inside e a (updating a lock) d lp (cwd w)) evs"
  using moves_trace [OF vendor_moves [OF assms]] .

theorem vendor_stays_inside_witness:
  "list_all (\<lambda>ev. case ev of RmTree l \<Rightarrow> l = [''w'', ''v'', ''ip''] | CopyTree k l \<Rightarrow> prefix [''w'', ''v'', ''ip''] l
      | WriteFile l s \<Rightarrow> l = [''w'', ''v'', ''ip.lock.hjson''] | Unlink l \<Rightarrow> False | _ \<Rightarrow> True)
    (trace (snd (vendor (ex_env []) (ex_args True True) ex_world)))"
proof -
  have p: "place (cwd ex_world) ex_lock = [''w'', ''v'', ''ip.lock.hjson'']" "trace ex_world = []"
    "place (cwd ex_world) (d_target_dir (ex_desc ''r'')) = [''w'', ''v'', ''ip'']" "\<not> a_refresh (ex_args True True)"
    by (simp_all add: place_def ex_world_def ex_lock_def ex_desc_def ex_args_def)
  show ?thesis using vendor_stays_inside [OF ex_load [of "[]" True True]]
    by (auto simp: list_all_iff inside_def p split: event.splits)
qed

section \<open>The lock file\<close>

text \<open>A regular file stays when something is put or removed at a place that is not above it.\<close>

lemma put_at_below: "put_at (q @ c # cs) n t = Some t' \<Longrightarrow> is_directory (node_at q t)"
proof (induction q arbitrary: t t')
  case Nil
  then show ?case by (cases t) auto
next
  case (Cons x q)
  then show ?case by (cases t) (auto split: option.splits if_splits)
qed

lemma put_keeps_file:
  assumes "node_at q t = Some (File s)" "put_at l n t = Some t'" "\<not> prefix l q"
  shows "node_at q t' = Some (File s)"
proof -
  have "\<not> prefix q l"
  proof
    assume "prefix q l"
    then obtain c cs where "l = q @ c # cs"
      using assms(3) by (metis append_Nil2 neq_Nil_conv prefixE prefix_order.order_refl)
    then show False using put_at_below assms(1,2) by fastforce
  qed
  then show ?thesis using fs.get_put_other [OF assms(2,3)] assms(1) by simp
qed

lemma unlink_keeps_file:
  assumes "node_at q t = Some (File s)" "is_regular (node_at l t)" "l \<noteq> q"
  shows "node_at q (del_at l t) = Some (File s)"
proof -
  have "\<not> prefix l q" using node_at_strict_prefix [of q t l] assms
    by (auto simp: strict_prefix_def is_regular_iff)
  moreover have "\<not> prefix q l" using node_at_strict_prefix [of l t q] assms
    by (auto simp: strict_prefix_def is_regular_iff)
  ultimately show ?thesis using fs.get_del_other assms(1) by simp
qed

lemma below_unrelated: "unrelated p q \<Longrightarrow> prefix p l \<Longrightarrow> \<not> prefix l q"
  by (auto simp: unrelated_def dest: prefix_order.trans)

text \<open>The lock file is not named like a patch.\<close>

lemma lock_name:
  assumes "lock_file_path d = Inr lp" "path_wf (d_path d)"
  shows "\<exists>k stem. place c lp = k @ [stem @ ''.lock.hjson'']"
proof -
  obtain stem where lp: "lp = (d_path d)\<lparr>parts := butlast (parts (d_path d)) @ [stem @ ''.lock.hjson'']\<rparr>"
    using assms(1) by (auto simp: lock_file_path_def with_name_def Let_def split: if_splits)
  have "stem @ ''.lock.hjson'' \<notin> {[], ''.'', ''..''}" by (cases stem) auto
  then show ?thesis unfolding lp by (auto simp: place_def walk_append)
qed

lemma patch_not_lock: "n @ ''.patch'' \<noteq> stem @ ''.lock.hjson''"
proof
  assume "n @ ''.patch'' = stem @ ''.lock.hjson''"
  then have "last (n @ ''.patch'') = last (stem @ ''.lock.hjson'')" by (rule arg_cong)
  then show False by simp
qed

lemma load_lock_file:
  assumes "load_inputs e a w = (Inr (d, lp, Some u), w1)"
  shows "\<exists>s. node_at (place (cwd w) lp) (tree w) = Some (File s)"
proof -
  have "load_lock e lp w = (Inr (Some u), w1)"
    using assms load_inputs_Inr [OF assms]
    by (auto simp: load_inputs_def catch_def io_simps split: sum.splits prod.splits option.splits exn.splits)
  then have "\<exists>s w'. read_file lp w = (Inr s, w')"
    by (auto simp: load_lock_def catch_def io_simps split: sum.splits prod.splits option.splits exn.splits)
  then show ?thesis using locate_place load_inputs_wf [OF assms]
    by (auto simp: read_file_def split: sum.splits option.splits node.splits)
qed

text \<open>C16: a run in the locked mode (a lock file and no \<open>--update\<close>), successful or not, leaves the lock file
  where it is with the content it has, when the target directory neither holds it nor lies below it.
  The hypotheses on the surroundings are that \<open>git\<close> leaves a file at that place alone, and that temporary
  directories are made away from it.\<close>

theorem locked_run_keeps_lock:
  assumes "load_inputs e a w = (Inr (d, lp, Some u), w1)" "\<not> a_update a"
    and "unrelated (place (cwd w) (d_target_dir d)) (place (cwd w) lp)"
    and "\<And>argv l inp t s. node_at (place (cwd w) lp) t = Some (File s) \<Longrightarrow>
      node_at (place (cwd w) lp) (snd (snd (snd (ext e argv l inp t)))) = Some (File s)"
    and "\<And>t. unrelated (mktemp e t) (place (cwd w) lp)"
  shows "\<exists>s. node_at (place (cwd w) lp) (tree w) = Some (File s)
    \<and> node_at (place (cwd w) lp) (tree (snd (vendor e a w))) = Some (File s)"
proof -
  let ?q = "place (cwd w) lp" and ?td = "place (cwd w) (d_target_dir d)"
  obtain s where s: "node_at ?q (tree w) = Some (File s)" using load_lock_file [OF assms(1)] by blast
  obtain k stem where q: "?q = k @ [stem @ ''.lock.hjson'']"
    using lock_name [of d lp "cwd w"] load_inputs_Inr [OF assms(1)] load_inputs_wf [OF assms(1)]
    by (auto simp: desc_inv_def)
  have "node_at ?q (tree (snd (vendor e a w))) = Some (File s)"
  proof (rule moves_invariant [OF vendor_moves [OF assms(1)], where I = "\<lambda>t. node_at ?q t = Some (File s)"])
    fix ev t t'
    assume ev: "inside e a (updating a (Some u)) d lp (cwd w) ev \<and> effect e ev t t'"
      and t: "node_at ?q t = Some (File s)"
    note put = put_keeps_file [OF t] and apart = below_unrelated [OF assms(3)]
    show "node_at ?q t' = Some (File s)"
    proof (cases ev)
      case (Run argv l inp)
      then show ?thesis using ev assms(4) [OF t] by simp
    next
      case (MkDir l)
      then have "node_at l t = None" "put_at l (Dir []) t = Some t'" using ev by simp_all
      moreover have "\<not> prefix l ?q"
        using \<open>node_at l t = None\<close> t by (auto simp: prefix_def node_at_append)
      ultimately show ?thesis using put by blast
    next
      case (RmTree l)
      then have "l = ?td" "t' = del_at l t" using ev by (simp_all add: inside_def)
      then show ?thesis using assms(3) t fs.get_del_other by (simp add: unrelated_def)
    next
      case (Unlink l)
      then obtain p n where "l = place (cwd w) p @ [n @ ''.patch'']" "is_regular (node_at l t)" "t' = del_at l t"
        using ev by (auto simp: inside_def)
      moreover from this(1) have "l \<noteq> ?q" using patch_not_lock [of n stem] by (simp add: q)
      ultimately show ?thesis using unlink_keeps_file [OF t] by simp
    next
      case (CopyFile k l)
      then show ?thesis using ev put [of l _ t'] apart [of l] by (auto simp: inside_def)
    next
      case (CopyTree k l)
      then show ?thesis using ev put [of l _ t'] apart [of l] by (auto simp: inside_def)
    next
      case (WriteFile l s')
      then show ?thesis using ev assms(2) by (simp add: inside_def updating_def)
    next
      case (MkTemp l)
      then show ?thesis using ev put [of l _ t'] assms(5) [of t] by (auto simp: unrelated_def)
    next
      case (RmTemp l)
      then show ?thesis using ev assms(5) t fs.get_del_other [of l ?q t] by (auto simp: unrelated_def)
    qed
  qed (rule s)
  then show ?thesis using s by blast
qed

lemma ex_git_keeps:
  assumes "node_at [''w'', ''v'', ''ip.lock.hjson''] t = Some (File s)"
  shows "node_at [''w'', ''v'', ''ip.lock.hjson''] (snd (snd (snd (ex_git st argv l inp t)))) = Some (File s)"
  using assms put_keeps_file [of "[''w'', ''v'', ''ip.lock.hjson'']" t s "[''tmp'', ''x'']"]
  by (auto simp: ex_git_def split: option.splits)

theorem locked_run_keeps_lock_witness:
  "\<exists>s. node_at [''w'', ''v'', ''ip.lock.hjson''] (tree ex_world) = Some (File s) \<and>
     node_at [''w'', ''v'', ''ip.lock.hjson''] (tree (snd (vendor (ex_env []) (ex_args False False) ex_world))) = Some (File s)"
proof -
  have p: "place (cwd ex_world) ex_lock = [''w'', ''v'', ''ip.lock.hjson'']"
    "place (cwd ex_world) (d_target_dir (ex_desc ''r'')) = [''w'', ''v'', ''ip'']"
    by (simp_all add: place_def ex_world_def ex_lock_def ex_desc_def)
  show ?thesis
    using locked_run_keeps_lock [OF ex_load [of "[]" False False], unfolded p] ex_git_keeps [where st = "[]"]
    by (simp add: ex_args_def ex_env_def unrelated_def)
qed

end
