(* ===== verification/Phases.thy ===== *)
theory Phases
  imports VendorProps
begin

text \<open>
  An abstract specification of \<open>vendor.py\<close>: a state machine over the events of a run. A run asks and
  prepares, enters a temporary directory, imports, records the lock file, and leaves. The program
  refines it: the trace of every run, successful or not, is a path of the machine. What holds of
  all paths, by rule induction, then holds of all runs.
\<close>

section \<open>The machine\<close>

datatype phase = Start | InTemp loc | Importing loc | Recorded loc | Committed loc | Done

definition changes_target :: "event \<Rightarrow> bool" where
  "changes_target ev \<longleftrightarrow> is_import ev \<and> \<not> is_git ev"

inductive step :: "phase \<Rightarrow> event \<Rightarrow> phase \<Rightarrow> bool" where
  ask: "is_ask ev \<Longrightarrow> step Start ev Start"
| drop_patch: "step Start (Unlink p) Start"
| enter: "step Start (MkTemp l) (InTemp l)"
| fetch: "is_ask ev \<Longrightarrow> step (InTemp l) ev (InTemp l)"
| give_up: "step (InTemp l) (RmTemp l) Start"
| replace: "changes_target ev \<Longrightarrow> step (InTemp l) ev (Importing l)"
| import: "is_import ev \<Longrightarrow> step (Importing l) ev (Importing l)"
| record_lock: "q \<in> {InTemp l, Importing l} \<Longrightarrow> step q (WriteFile f s) (Recorded l)"
| look: "is_ask ev \<Longrightarrow> step (Recorded l) ev (Recorded l)"
| commit: "is_commit ev \<Longrightarrow> q \<in> {InTemp l, Importing l, Recorded l, Committed l} \<Longrightarrow>
    step q ev (Committed l)"
| leave: "q \<in> {Importing l, Recorded l, Committed l} \<Longrightarrow> step q (RmTemp l) Done"

inductive path_to :: "phase \<Rightarrow> event list \<Rightarrow> phase \<Rightarrow> bool" for p where
  here: "path_to p [] p"
| further: "path_to p evs q \<Longrightarrow> step q ev r \<Longrightarrow> path_to p (evs @ [ev]) r"

inductive_cases step_StartE: "step Start ev q"
inductive_cases step_InTempE: "step (InTemp l) ev q"
inductive_cases step_ImportingE: "step (Importing l) ev q"
inductive_cases step_RecordedE: "step (Recorded l) ev q"
inductive_cases step_CommittedE: "step (Committed l) ev q"
inductive_cases step_DoneE: "step Done ev q"

lemmas step_elims = step_StartE step_InTempE step_ImportingE step_RecordedE step_CommittedE step_DoneE

lemma path_to_trans: "path_to q evs' r \<Longrightarrow> path_to p evs q \<Longrightarrow> path_to p (evs @ evs') r"
  by (induction rule: path_to.induct) (auto intro: path_to.intros simp flip: append_assoc)

lemma path_to_single: "step p ev q \<Longrightarrow> path_to p [ev] q"
  using further [OF here] by simp

section \<open>Programs that follow the machine\<close>

text \<open>\<open>drives p m S F\<close>: started in phase \<open>p\<close>, every run of \<open>m\<close> adds a path to the trace, to a phase
  of \<open>S\<close> when it succeeds and of \<open>F\<close> when it raises.\<close>

definition drives :: "phase \<Rightarrow> 'a io \<Rightarrow> phase set \<Rightarrow> phase set \<Rightarrow> bool" where
  "drives p m S F \<longleftrightarrow>
     (\<forall>w r w'. m w = (r, w') \<longrightarrow>
        (\<exists>evs q. trace w' = trace w @ evs \<and> path_to p evs q \<and>
           q \<in> (case r of Inl e \<Rightarrow> F | Inr x \<Rightarrow> S)))"

lemma drivesD:
  assumes "drives p m S F" "m w = (r, w')"
  obtains evs q where "trace w' = trace w @ evs" "path_to p evs q"
    "q \<in> (case r of Inl e \<Rightarrow> F | Inr x \<Rightarrow> S)"
  using assms unfolding drives_def by blast

lemma drivesI:
  "(\<And>w r w'. m w = (r, w') \<Longrightarrow> \<exists>evs q. trace w' = trace w @ evs \<and> path_to p evs q \<and>
     q \<in> (case r of Inl e \<Rightarrow> F | Inr x \<Rightarrow> S)) \<Longrightarrow> drives p m S F"
  unfolding drives_def by blast

lemma drives_bind:
  assumes "drives p m S F" "\<And>q x. q \<in> S \<Longrightarrow> drives q (f x) S' F"
  shows "drives p (bind m f) S' F"
proof (rule drivesI)
  fix w r w'
  assume b: "bind m f w = (r, w')"
  obtain r1 w1 where m: "m w = (r1, w1)" by fastforce
  obtain evs q where 1: "trace w1 = trace w @ evs" "path_to p evs q"
    "q \<in> (case r1 of Inl e \<Rightarrow> F | Inr x \<Rightarrow> S)"
    using drivesD [OF assms(1) m] .
  show "\<exists>evs q. trace w' = trace w @ evs \<and> path_to p evs q \<and> q \<in> (case r of Inl e \<Rightarrow> F | Inr x \<Rightarrow> S')"
  proof (cases r1)
    case (Inl e)
    then have "r = Inl e" "w' = w1" using b m by (simp_all add: bind_def)
    then show ?thesis using 1 Inl by auto
  next
    case (Inr x)
    then have f: "f x w1 = (r, w')" using b m by (simp add: bind_def)
    have "q \<in> S" using 1(3) Inr by simp
    from drivesD [OF assms(2) [OF this] f] obtain evs' q' where
      "trace w' = trace w1 @ evs'" "path_to q evs' q'" "q' \<in> (case r of Inl e \<Rightarrow> F | Inr x \<Rightarrow> S')" .
    then show ?thesis using 1 path_to_trans by (intro exI [of _ "evs @ evs'"] exI [of _ q']) auto
  qed
qed

text \<open>A program whose events keep the machine within a set of phases.\<close>

lemma path_within:
  assumes "\<And>q ev. q \<in> S \<Longrightarrow> P ev \<Longrightarrow> \<exists>r\<in>S. step q ev r" "list_all P evs" "p \<in> S"
  shows "\<exists>q\<in>S. path_to p evs q"
  using assms(2)
proof (induction evs rule: rev_induct)
  case Nil
  then show ?case using assms(3) here by blast
next
  case (snoc ev evs)
  then obtain q where q: "q \<in> S" "path_to p evs q" by auto
  have "P ev" using snoc.prems by simp
  then obtain r where "r \<in> S" "step q ev r" using assms(1) [OF q(1)] by blast
  then show ?case using further [OF q(2)] by blast
qed

lemma emits_drives:
  assumes "emits P m" "\<And>q ev. q \<in> S \<Longrightarrow> P ev \<Longrightarrow> \<exists>r\<in>S. step q ev r" "p \<in> S"
  shows "drives p m S S"
proof (rule drivesI)
  fix w r w'
  assume "m w = (r, w')"
  then obtain evs where "trace w' = trace w @ evs" "list_all P evs"
    using emitsD [OF assms(1)] by metis
  then show "\<exists>evs q. trace w' = trace w @ evs \<and> path_to p evs q \<and> q \<in> (case r of Inl e \<Rightarrow> S | Inr x \<Rightarrow> S)"
    using path_within [OF assms(2) _ assms(3)] by (auto split: sum.splits)
qed

lemma drives_mono: "drives p m S F \<Longrightarrow> S \<subseteq> S' \<Longrightarrow> F \<subseteq> F' \<Longrightarrow> drives p m S' F'"
proof (rule drivesI)
  fix w r w'
  assume d: "drives p m S F" "S \<subseteq> S'" "F \<subseteq> F'" and m: "m w = (r, w')"
  obtain evs q where "trace w' = trace w @ evs" "path_to p evs q"
    "q \<in> (case r of Inl e \<Rightarrow> F | Inr x \<Rightarrow> S)"
    using drivesD [OF d(1) m] .
  then show "\<exists>evs q. trace w' = trace w @ evs \<and> path_to p evs q \<and>
      q \<in> (case r of Inl e \<Rightarrow> F' | Inr x \<Rightarrow> S')"
    using d(2,3) by (cases r) auto
qed

section \<open>The program refines the machine\<close>

lemma drives_look: "(\<And>w0. drives p (f w0) S F) \<Longrightarrow> drives p (\<lambda>w. f w w) S F"
  by (simp add: drives_def)

lemma drives_stay: "emits P m \<Longrightarrow> (\<And>ev. P ev \<Longrightarrow> step q ev q) \<Longrightarrow> drives q m {q} {q}"
  by (rule emits_drives [of P]) auto

text \<open>A temporary directory: the block may end in any phase that the removal leads out of.\<close>

lemma drives_with_tempdir:
  assumes "\<And>l d. drives (InTemp l) (body d) (S l) (S l)"
    and "\<And>l q. q \<in> S l \<Longrightarrow> \<exists>r\<in>T. step q (RmTemp l) r" "Start \<in> T"
  shows "drives Start (with_tempdir e body) T T"
proof (rule drivesI)
  fix w r w'
  assume run: "with_tempdir e body w = (r, w')"
  let ?l = "mktemp e (tree w)"
  show "\<exists>evs q. trace w' = trace w @ evs \<and> path_to Start evs q \<and> q \<in> (case r of Inl e \<Rightarrow> T | Inr x \<Rightarrow> T)"
  proof (cases "put_at ?l (Dir []) (tree w)")
    case None
    then have "w' = w" using run by (simp add: with_tempdir_def Let_def)
    then show ?thesis using here [of Start] assms(3)
      by (intro exI [of _ "[]"] exI [of _ Start]) (auto split: sum.splits)
  next
    case (Some t1)
    obtain w2 where b: "body \<lparr>root = ''/'', parts = ?l\<rparr> (emit (MkTemp ?l) t1 w) = (r, w2)"
      "w' = emit (RmTemp ?l) (del_at ?l (tree w2)) w2"
      using run Some by (auto simp: with_tempdir_def Let_def split: prod.splits)
    obtain evs q where q: "trace w2 = trace (emit (MkTemp ?l) t1 w) @ evs" "path_to (InTemp ?l) evs q"
      "q \<in> (case r of Inl e \<Rightarrow> S ?l | Inr x \<Rightarrow> S ?l)"
      using drivesD [OF assms(1) b(1)] .
    have "q \<in> S ?l" using q(3) by (auto split: sum.splits)
    then obtain q' where q': "q' \<in> T" "step q (RmTemp ?l) q'" using assms(2) by blast
    have "path_to Start (([MkTemp ?l] @ evs) @ [RmTemp ?l]) q'"
      by (rule further [OF path_to_trans [OF q(2) path_to_single] q'(2)]) (rule enter)
    then show ?thesis using q(1) b(2) q'(1)
      by (intro exI [of _ "([MkTemp ?l] @ evs) @ [RmTemp ?l]"] exI [of _ q']) (auto split: sum.splits)
  qed
qed

lemma import_step:
  assumes "q \<in> {InTemp l, Importing l}" "is_import ev"
  shows "\<exists>r\<in>{InTemp l, Importing l}. step q ev r"
proof (cases "is_git ev")
  case True
  then have "is_ask ev" using assms(2) by (auto simp: is_import_def is_git_def)
  then show ?thesis using assms by (auto intro: step.intros)
next
  case False
  then have "changes_target ev" using assms(2) by (simp add: changes_target_def)
  then show ?thesis using assms by (auto intro: step.intros)
qed

abbreviation inside :: "loc \<Rightarrow> phase set" where
  "inside l \<equiv> {InTemp l, Importing l, Recorded l, Committed l}"

lemma drives_ask:
  assumes "emits is_ask m" "q \<in> {InTemp l, Importing l, Recorded l}"
  shows "drives q m {q} (inside l)"
proof -
  have "step q ev q" if "is_ask ev" for ev using that assms(2) by (auto intro: step.intros)
  then show ?thesis using drives_mono [OF drives_stay [OF assms(1)]] assms(2) by auto
qed

lemma drives_import: "drives (InTemp l) (import_from_upstream e d p) {InTemp l, Importing l} (inside l)"
proof -
  have "drives (InTemp l) (import_from_upstream e d p) {InTemp l, Importing l} {InTemp l, Importing l}"
    using import_step by (intro emits_drives [OF emits_import]) auto
  then show ?thesis by (rule drives_mono) auto
qed

lemma drives_write_lock:
  assumes "q \<in> {InTemp l, Importing l}"
  shows "drives q (write_lock e b d lp v) {InTemp l, Importing l, Recorded l} (inside l)"
proof (rule drivesI)
  fix w r w'
  assume "write_lock e b d lp v w = (r, w')"
  then consider "w' = w" | f s t where "w' = emit (WriteFile f s) t w"
    by (auto simp: write_lock_def write_file_def put_file_def ret_def split: if_splits sum.splits option.splits)
  then show "\<exists>evs p. trace w' = trace w @ evs \<and> path_to q evs p \<and>
      p \<in> (case r of Inl e \<Rightarrow> inside l | Inr x \<Rightarrow> {InTemp l, Importing l, Recorded l})"
  proof cases
    case 1
    then show ?thesis using assms here [of q]
      by (intro exI [of _ "[]"] exI [of _ q]) (auto split: sum.splits)
  next
    case 2
    have "path_to q [WriteFile f s] (Recorded l)" by (intro path_to_single record_lock assms)
    then show ?thesis using 2
      by (intro exI [of _ "[WriteFile f s]"] exI [of _ "Recorded l"]) (auto split: sum.splits)
  qed
qed

lemma commit_step: "q \<in> inside l \<Longrightarrow> is_commit ev \<Longrightarrow> \<exists>r\<in>inside l. step q ev r"
  using commit [of ev q l] by blast

lemma drives_commit_changes:
  assumes "q \<in> {InTemp l, Importing l, Recorded l}"
  shows "drives q (commit_changes e a d lp p v sl) (inside l) (inside l)"
proof -
  have ac: "drives q (git_add_commit e ps msg) (inside l) (inside l)" for ps msg
    using assms commit_step by (intro emits_drives [OF emits_add_commit [where P = is_commit]]) blast+
  have pp: "drives q (if b then (case x of None \<Rightarrow> raise AttributeError | Some y \<Rightarrow> ret [y]) else ret [])
      {q} (inside l)" for b and x :: "path option"
    by (intro drives_ask [OF _ assms] emits_if emits_option emits_raise emits_ret)
  have no: "drives q (ret ()) (inside l) (inside l)"
    using assms by (intro drives_mono [OF drives_ask [OF emits_ret assms]]) auto
  have yes: "drives q (bind (git_get_short_rev e p v) (\<lambda>sha_short.
        bind (if a_refresh a
              then (case d_patch_dir d of None \<Rightarrow> raise AttributeError | Some p \<Rightarrow> ret [p])
              else ret []) (\<lambda>patch_paths.
        git_add_commit e ([d_target_dir d] @ patch_paths @ [lp])
          (commit_msg e d sha_short v sl)))) (inside l) (inside l)"
    by (rule drives_bind [OF drives_ask [OF emits_asks(3) assms]], assumption, elim singletonE, hypsubst,
        rule drives_bind [OF pp], elim singletonE, hypsubst, rule ac)
  show ?thesis using no yes by (simp add: commit_changes_def)
qed

lemma drives_fetch: "drives (InTemp l) (fetch e a d lp lock ch dir) (inside l) (inside l)"
proof -
  have g: "drives q (clone_git_repo e u p r) {q} (inside l)" "drives q (check_revision b lk v) {q} (inside l)"
    "drives q (enter_subdir d p) {q} (inside l)" "drives q (get_shortlog e b d lk ch' p v) {q} (inside l)"
    if "q \<in> {InTemp l, Importing l}" for q u p r b lk v ch'
    using that by (intro drives_ask [where l = l] emits_asks emits_check_revision emits_enter_subdir
        emits_get_shortlog; auto)+
  show ?thesis unfolding fetch_def Let_def
    by (rule drives_bind [OF g(1)], simp, elim singletonE, hypsubst,
        rule drives_bind [OF g(2)], simp, elim singletonE, hypsubst,
        rule drives_bind [OF g(3)], simp, elim singletonE, hypsubst,
        rule drives_bind [OF drives_import], rule drives_bind [OF g(4)], assumption,
        elim singletonE, hypsubst, rule drives_bind [OF drives_write_lock], assumption,
        rule drives_commit_changes)
qed

lemma drives_refresh: "drives Start (refresh_patches e d) {Start} {Start}"
proof -
  have g: "emits is_ask (run e' p (''git'' # ''format-patch'' # as) inp)" for e' p as inp
    by (intro emits_run is_ask_Run) simp
  have f: "emits is_ask (\<lambda>w. bind (run e (Some c)
             ([''git'', ''format-patch'', ''--no-signature'', ''--no-stat'', ''-o'',
               path_str (path_resolve dir w),
               ''origin/'' @ a @ ''..'' @ ''origin/'' @ b] @ quiet e) []) (\<lambda>_. ret ()) w)" for c dir a b
    unfolding append_Cons append_Nil by (rule emits_look) (intro emits_bind emits_ret g)
  have b: "drives (InTemp l) (\<lambda>w. bind (clone_git_repo e url c v) (\<lambda>_ w. bind (run e (Some c)
             ([''git'', ''format-patch'', ''--no-signature'', ''--no-stat'', ''-o'',
               path_str (path_resolve dir w),
               ''origin/'' @ a @ ''..'' @ ''origin/'' @ b] @ quiet e) []) (\<lambda>_. ret ()) w) w) {InTemp l} {InTemp l}"
    for l url c v dir a b
    by (intro drives_stay [of is_ask] emits_bind emits_asks f fetch)
  have x: "drives Start (export_patches e url dir a b) {Start} {Start}" for url dir a b
    unfolding export_patches_def using b
    by (intro drives_with_tempdir [where S = "\<lambda>l. {InTemp l}"]) (auto intro: give_up)
  have u: "drives Start (for_each ps unlink) {Start} {Start}" for ps
    by (intro drives_stay [of "\<lambda>ev. \<exists>p. ev = Unlink p"] emits_for_each emits_unlink) (auto intro: drop_patch)
  have "drives Start (\<lambda>w. bind (for_each (glob dir pat w) unlink) (\<lambda>_. export_patches e url dir a b) w)
      {Start} {Start}" for dir pat url a b
    by (rule drives_look, rule drives_bind [OF u]) (use x in auto)
  moreover have "drives Start (raise ex :: unit io) {Start} {Start}" for ex
    by (rule drives_stay [OF emits_raise [where P = "\<lambda>ev. False"]]) simp
  ultimately show ?thesis by (simp add: refresh_patches_def split: option.splits)
qed

lemma drives_vendor: "drives Start (vendor e a) {Start, Done} {Start, Done}"
proof -
  have wt: "drives Start (with_tempdir e (fetch e a d lp lock ch)) {Start, Done} {Start, Done}" for d lp lock ch
    by (rule drives_with_tempdir [OF drives_fetch]) (auto intro: give_up leave)
  have li: "drives Start (load_inputs e a) {Start} {Start, Done}"
    by (rule drives_mono [OF drives_stay [OF emits_load_inputs [where P = "\<lambda>ev. False"]]]) auto
  have cc: "drives Start (check_clean e a d) {Start} {Start, Done}" for d
    by (rule drives_mono [OF drives_stay [OF emits_check_clean [where P = is_ask]]]) (auto intro: ask)
  have "drives Start (if b then refresh_patches e d else ret ()) {Start} {Start}" for b d
    using drives_refresh drives_stay [OF emits_ret [where P = "\<lambda>ev. False"]] by auto
  then have rf: "drives Start (if b then refresh_patches e d else ret ()) {Start} {Start, Done}" for b d
    by (rule drives_mono) auto
  have "drives Start (bind (check_clean e a d0) (\<lambda>_.
      bind (if a_refresh a then refresh_patches e d else ret ()) (\<lambda>_.
      with_tempdir e (fetch e a d lp lock ch)))) {Start, Done} {Start, Done}" for d0 d lp lock ch
    by (rule drives_bind [OF cc], elim singletonE, hypsubst, rule drives_bind [OF rf],
        elim singletonE, hypsubst, rule wt)
  then show ?thesis unfolding vendor_def Let_def
    by (intro drives_bind [OF li]) (auto split: prod.splits)
qed

lemma vendor_path:
  obtains evs q where "trace (snd (vendor e a w)) = trace w @ evs" "path_to Start evs q" "q \<in> {Start, Done}"
proof -
  obtain r w' where v: "vendor e a w = (r, w')" by fastforce
  from drivesD [OF drives_vendor v] obtain evs q where
    "trace w' = trace w @ evs" "path_to Start evs q" "q \<in> (case r of Inl e \<Rightarrow> {Start, Done} | Inr x \<Rightarrow> {Start, Done})" .
  then show thesis using that v by (auto split: sum.splits)
qed

text \<open>C3: every run of the program, whatever its arguments, the files and the answers of \<open>git\<close>, and
  whether it succeeds or not, is a path of the machine from its start to a phase outside of the
  temporary directory.\<close>

theorem vendor_refines_machine:
  "\<exists>evs q. trace (snd (vendor e a w)) = trace w @ evs \<and> path_to Start evs q \<and> q \<in> {Start, Done}"
  by (rule vendor_path [of e a w]) blast

section \<open>Invariants of the machine\<close>

definition is_write :: "event \<Rightarrow> bool" where
  "is_write ev \<longleftrightarrow> (\<exists>l s. ev = WriteFile l s)"

text \<open>What settles the result: after it nothing is replaced or written any more.\<close>

definition settles :: "event \<Rightarrow> bool" where
  "settles ev \<longleftrightarrow> is_write ev \<or> is_commit ev"

definition may_follow :: "event \<Rightarrow> event \<Rightarrow> bool" where
  "may_follow a b \<longleftrightarrow> \<not> (settles a \<and> (changes_target b \<or> is_write b))"

text \<open>Temporary directories are removed in turn, each before the next one is made.\<close>

definition is_temp :: "event \<Rightarrow> bool" where
  "is_temp ev \<longleftrightarrow> (\<exists>l. ev = MkTemp l \<or> ev = RmTemp l)"

fun paired :: "event list \<Rightarrow> bool" where
  "paired [] = True"
| "paired (MkTemp l # RmTemp l' # evs) = (l = l' \<and> paired evs)"
| "paired evs = False"

lemma paired_append: "paired evs \<Longrightarrow> paired (evs @ [MkTemp l, RmTemp l])"
  by (induction evs rule: paired.induct) auto

lemma event_kinds [simp]:
  "\<not> is_temp (Unlink p)" "\<not> is_temp (WriteFile l s)" "is_temp (MkTemp l)" "is_temp (RmTemp l)"
  "\<not> settles (Unlink p)" "\<not> settles (MkTemp l)" "\<not> settles (RmTemp l)" "settles (WriteFile l s)"
  "\<not> changes_target (Unlink p)" "\<not> changes_target (MkTemp l)" "\<not> changes_target (RmTemp l)"
  "\<not> changes_target (WriteFile l s)" "\<not> is_write (Unlink p)" "\<not> is_write (MkTemp l)" "\<not> is_write (RmTemp l)"
  by (auto simp: is_temp_def settles_def is_write_def is_commit_def changes_target_def)

lemma import_kinds:
  assumes "is_import ev"
  shows "\<not> is_temp ev" "\<not> settles ev" "\<not> is_write ev"
  using assms
  by (auto simp: is_import_def is_temp_def settles_def is_write_def is_ask_def is_commit_def is_git_def)

lemma ask_kinds:
  assumes "is_ask ev"
  shows "\<not> is_temp ev" "\<not> settles ev" "\<not> is_write ev" "\<not> changes_target ev"
  using assms by (auto simp: is_temp_def settles_def is_write_def is_ask_def is_git_def changes_target_def)

lemma commit_kinds:
  assumes "is_commit ev"
  shows "\<not> is_temp ev" "settles ev" "\<not> is_write ev" "\<not> changes_target ev"
  using assms is_commit_git [of ev]
  by (auto simp: is_temp_def settles_def is_write_def is_git_def changes_target_def)

lemma target_kinds:
  assumes "changes_target ev"
  shows "\<not> is_temp ev" "\<not> settles ev" "\<not> is_write ev"
  using assms import_kinds by (simp_all add: changes_target_def)

lemmas kinds = import_kinds ask_kinds commit_kinds target_kinds

definition order_ok :: "event list \<Rightarrow> phase \<Rightarrow> bool" where
  "order_ok evs q \<longleftrightarrow> sorted_wrt may_follow evs \<and>
     (\<forall>l. q \<in> {Start, InTemp l, Importing l} \<longrightarrow> list_all (\<lambda>ev. \<not> settles ev) evs)"

definition temps_ok :: "event list \<Rightarrow> phase \<Rightarrow> bool" where
  "temps_ok evs q \<longleftrightarrow>
     (if q \<in> {Start, Done} then paired (filter is_temp evs)
      else \<exists>l es. q \<in> inside l \<and> filter is_temp evs = es @ [MkTemp l] \<and> paired es)"

lemma path_order: "path_to Start evs q \<Longrightarrow> order_ok evs q"
proof (induction rule: path_to.induct)
  case (further evs q ev r)
  from further.hyps(2) further.IH show ?case
    by (cases rule: step.cases)
      (auto simp: order_ok_def sorted_wrt_append may_follow_def list_all_iff kinds)
qed (simp add: order_ok_def)

lemma path_temps: "path_to Start evs q \<Longrightarrow> temps_ok evs q"
proof (induction rule: path_to.induct)
  case (further evs q ev r)
  from further.hyps(2) further.IH show ?case
    by (cases rule: step.cases)
      (auto simp: temps_ok_def kinds paired_append)
qed (simp add: temps_ok_def)

text \<open>C5: in every run, successful or not, nothing in the target directory is replaced and no file
  is written once the lock file is written or a commit has begun; so the lock file is written at
  most once, and a commit comes last. The temporary directories are made and removed in turn.\<close>

theorem run_order:
  "\<exists>evs. trace (snd (vendor e a w)) = trace w @ evs \<and> sorted_wrt may_follow evs \<and> paired (filter is_temp evs)"
proof -
  obtain evs q where "trace (snd (vendor e a w)) = trace w @ evs" "path_to Start evs q" "q \<in> {Start, Done}"
    using vendor_path .
  then show ?thesis using path_order path_temps by (auto simp: order_ok_def temps_ok_def)
qed

end
