(* ===== verification/Errors.thy ===== *)
theory Errors
  imports VendorProps
begin

text \<open>
  Which exceptions a program can end with. \<open>raises E m\<close> says that every exception of \<open>m\<close>
  satisfies \<open>E\<close>; the rules follow the structure of the program, with a handler taking out what it
  handles. The result is the full list of the ways a run of \<open>vendor.py\<close> can fail, and what each kind of
  bad input leads to.
\<close>

definition raises :: "(exn \<Rightarrow> bool) \<Rightarrow> 'a io \<Rightarrow> bool" where
  "raises E m \<longleftrightarrow> (\<forall>w x w'. m w = (Inl x, w') \<longrightarrow> E x)"

lemma raisesI: "(\<And>w x w'. m w = (Inl x, w') \<Longrightarrow> E x) \<Longrightarrow> raises E m"
  unfolding raises_def by blast

lemma raisesD: "raises E m \<Longrightarrow> m w = (Inl x, w') \<Longrightarrow> E x"
  unfolding raises_def by blast

lemma raises_mono: "raises E m \<Longrightarrow> (\<And>x. E x \<Longrightarrow> F x) \<Longrightarrow> raises F m"
  unfolding raises_def by blast

lemma raises_ret [raises_intros]: "raises E (ret x)"
  by (simp add: raises_def ret_def)

lemma raises_raise: "E x \<Longrightarrow> raises E (raise x)"
  by (simp add: raises_def raise_def)

lemma raises_lift: "(\<And>x. r = Inl x \<Longrightarrow> E x) \<Longrightarrow> raises E (lift r)"
  by (simp add: raises_def lift_def)

lemma raises_bind [raises_intros]: "raises E m \<Longrightarrow> (\<And>x. raises E (f x)) \<Longrightarrow> raises E (bind m f)"
  unfolding raises_def bind_Inl_iff by blast

lemma raises_catch:
  assumes "raises F m" "\<And>x. F x \<Longrightarrow> h x = None \<Longrightarrow> E x" "\<And>x m'. F x \<Longrightarrow> h x = Some m' \<Longrightarrow> raises E m'"
  shows "raises E (catch m h)"
  using assms unfolding raises_def catch_def
  by (fastforce split: prod.splits sum.splits option.splits)

lemma raises_for_each [raises_intros]: "(\<And>x. raises E (f x)) \<Longrightarrow> raises E (for_each xs f)"
  by (induction xs) (auto intro: raises_intros)

lemma raises_if [raises_intros]:
  "(b \<Longrightarrow> raises E m1) \<Longrightarrow> (\<not> b \<Longrightarrow> raises E m2) \<Longrightarrow> raises E (if b then m1 else m2)"
  by simp

lemma raises_option [raises_intros]:
  "(x = None \<Longrightarrow> raises E m1) \<Longrightarrow> (\<And>y. x = Some y \<Longrightarrow> raises E (m2 y)) \<Longrightarrow>
     raises E (case x of None \<Rightarrow> m1 | Some y \<Rightarrow> m2 y)"
  by (cases x) auto

lemma raises_pointwise: "(\<And>w. \<exists>m. raises E m \<and> f w = m w) \<Longrightarrow> raises E f"
  unfolding raises_def by metis

lemma raises_look: "(\<And>w0. raises E (f w0)) \<Longrightarrow> raises E (\<lambda>w. f w w)"
  by (rule raises_pointwise) blast

section \<open>The kinds of errors\<close>

text \<open>Errors of the file system, of a \<open>git\<close> command given as strings, of the \<open>git add\<close> of the
  commit, and the crashes: uses of a value of the wrong type, and a template that does not parse.\<close>

definition os_error :: "exn \<Rightarrow> bool" where
  "os_error x \<longleftrightarrow> (\<exists>l. x \<in> {FileNotFoundError l, FileExistsError l, NotADirectoryError l, IsADirectoryError l})"

definition git_error :: "exn \<Rightarrow> bool" where
  "git_error x \<longleftrightarrow> (\<exists>as rc out err. x = CalledProcessError (map Str (''git'' # as)) rc out err)"

definition add_error :: "exn \<Rightarrow> bool" where
  "add_error x \<longleftrightarrow> (\<exists>base ps rc out err.
     x = CalledProcessError ([Str ''git'', Str ''-C'', PathArg base, Str ''add''] @ map PathArg ps) rc out err)"

definition io_error :: "exn \<Rightarrow> bool" where
  "io_error x \<longleftrightarrow> os_error x \<or> git_error x"

lemma os_error_simps [simp]:
  "os_error (FileNotFoundError l)" "os_error (FileExistsError l)" "os_error (NotADirectoryError l)"
  "os_error (IsADirectoryError l)"
  by (simp_all add: os_error_def)

lemma io_error_os: "os_error x \<Longrightarrow> io_error x"
  by (simp add: io_error_def)

lemma os_walk_error: "os_walk t cur cs = Inl x \<Longrightarrow> os_error x"
  by (induction t cur cs rule: os_walk.induct) (auto split: option.splits node.splits)

lemma locate_error: "locate p w = Inl x \<Longrightarrow> os_error x"
  by (simp add: locate_def os_walk_error)

lemma raises_read_file: "raises os_error (read_file p)"
  by (auto simp: raises_def read_file_def locate_error split: sum.splits option.splits node.splits)

lemma raises_put_file: "raises os_error (put_file ev l s)"
  by (auto simp: raises_def put_file_def split: if_splits option.splits)

lemma raises_write_file: "raises os_error (write_file p s)"
  using raises_put_file
  by (auto simp: raises_def write_file_def locate_error split: sum.splits)

lemma raises_unlink: "raises os_error (unlink p)"
  by (auto simp: raises_def unlink_def locate_error split: sum.splits option.splits node.splits)

lemma raises_rmtree: "raises E (rmtree p)"
  by (auto simp: raises_def rmtree_def split: sum.splits if_splits)

lemma raises_os_mkdir: "raises os_error (os_mkdir p)"
  by (auto simp: raises_def os_mkdir_def locate_error split: sum.splits option.splits if_splits)

lemma raises_mkdir_exist_ok:
  assumes "\<And>x. os_error x \<Longrightarrow> raises os_error (retry x)"
  shows "raises os_error (mkdir_exist_ok p retry)"
  unfolding mkdir_exist_ok_def
proof (rule raises_catch [OF raises_os_mkdir], simp)
  fix x m'
  assume x: "os_error x" and m: "Some (case x of FileNotFoundError l \<Rightarrow> retry x
    | _ \<Rightarrow> (\<lambda>w. if is_dir p w then ret () w else raise x w)) = Some m'"
  have "raises os_error (\<lambda>w. if is_dir p w then ret () w else raise x w)"
    using x by (auto simp: raises_def io_simps)
  then show "raises os_error m'" using m assms [OF x] by (auto split: exn.splits)
qed

lemma raises_mkdir_parents: "raises os_error (mkdir_parents p)"
proof (induction p rule: mkdir_parents.induct)
  case (1 p)
  show ?case
    by (subst mkdir_parents.simps)
      (intro raises_mkdir_exist_ok raises_if raises_bind raises_raise 1; assumption)
qed

lemma raises_makedirs: "raises os_error (makedirs p)"
proof (rule raises_pointwise)
  fix w
  let ?m = "bind (if parts p \<noteq> [] \<and> stat (path_parent p) w = None then mkdir_parents (path_parent p)
    else ret ()) (\<lambda>_. os_mkdir p)"
  have "raises os_error ?m"
    by (intro raises_bind raises_if raises_mkdir_parents raises_os_mkdir raises_ret)
  then show "\<exists>m. raises os_error m \<and> makedirs p w = m w"
    by (intro exI [of _ ?m]) (simp add: makedirs_def)
qed

lemma raises_copy_file: "raises os_error (copy_file src dst)"
proof -
  have "raises os_error (\<lambda>w. place_file src (copy_dest src dst w) s w)" for s
    using raises_put_file
    by (auto simp: raises_def place_file_def locate_error split: sum.splits)
  then show ?thesis unfolding copy_file_def by (intro raises_bind raises_read_file)
qed

lemma raises_copytree: "raises os_error (copytree src dst ign)"
proof -
  have "raises os_error (read_dir p)" "raises os_error (place_dir l p n)" for p l n
    by (auto simp: raises_def read_dir_def place_dir_def locate_error
        split: sum.splits option.splits node.splits)
  then show ?thesis unfolding copytree_def
    by (intro raises_bind) (auto intro!: raises_bind raises_makedirs split: prod.splits)
qed

lemma raises_run: "raises io_error (run e dir (''git'' # as) inp)"
proof -
  have "raises io_error (run_in e l (''git'' # as) inp)" for l
    by (auto simp: raises_def run_in_def Let_def io_error_def git_error_def split: prod.splits if_splits)
  then show ?thesis
    by (auto simp: raises_def run_def io_error_def dest: locate_error split: option.splits sum.splits node.splits)
qed

lemma raises_with_tempdir:
  assumes "\<And>d. raises E (body d)" "\<And>x. os_error x \<Longrightarrow> E x"
  shows "raises E (with_tempdir e body)"
  using assms by (auto simp: raises_def with_tempdir_def Let_def split: option.splits prod.splits)

section \<open>Reading the configuration\<close>

definition config_error :: "exn \<Rightarrow> bool" where
  "config_error x \<longleftrightarrow> json_error x \<or> (\<exists>v. x = ValueError v)"

definition crash :: "exn \<Rightarrow> bool" where
  "crash x \<longleftrightarrow> x \<in> {AttributeError, TypeError}"

text \<open>The Hjson library reports a text it cannot read by a \<open>ValueError\<close> (of which its own error class
  is a kind).\<close>

definition hjson_errors :: "env \<Rightarrow> bool" where
  "hjson_errors e \<longleftrightarrow> (\<forall>s x. hjson_loads e s = Inl x \<longrightarrow> (\<exists>v. x = ValueError v))"

lemma apply_overrides_error: "apply_overrides data ovs = Inl x \<Longrightarrow> x = TypeError"
proof (induction data ovs rule: apply_overrides.induct)
  case (2 data key v ovs)
  have "override_at (split_on (CHR ''.'') key) (JStr v) data = Inl x \<Longrightarrow> x = TypeError"
    using override_at_cases [of "split_on (CHR ''.'') key" data "JStr v"] by (auto split: if_splits)
  then show ?case using 2 by (auto simp: res_simps)
qed simp

lemma required_not_dict:
  "(\<forall>d. data \<noteq> JDict d) \<Longrightarrow> required (get_field pth wh data name ty False c) = Inl AttributeError"
  by (simp add: required_def get_field_not_dict)

lemma Desc_dict_error:
  assumes "loads (h_text h) = Inr data0" "apply_overrides data0 ovs = Inr (JDict dd)" "Desc loads h ovs = Inl x"
  shows "config_error x"
proof (cases "desc_name_ok (h_name h)")
  case True
  have mm: "\<And>v e'. isinstance v TDict \<Longrightarrow> Upstream ps v = Inl e' \<Longrightarrow> json_error e'"
    "\<And>v e'. isinstance v TDict \<Longrightarrow> PatchRepo ps v = Inl e' \<Longrightarrow> json_error e'" for ps
    by (auto dest: Upstream_error PatchRepo_error)
  have "json_error x"
    using True assms(3) unfolding Desc_def Let_def
    by (auto simp: assms(1,2) rbind_Inl_iff res_simps dest!: required_error get_field_error
        dest: mm Mapping_make_error check_desc_error check_exclude_error)
  then show ?thesis by (simp add: config_error_def)
next
  case False
  with assms(3) show ?thesis by (auto simp: Desc_def config_error_def)
qed

lemma Desc_error:
  assumes "hjson_errors e" "Desc (hjson_loads e) h ovs = Inl x"
  shows "config_error x \<or> crash x"
proof -
  consider y where "hjson_loads e (h_text h) = Inl y"
    | data0 y where "hjson_loads e (h_text h) = Inr data0" "apply_overrides data0 ovs = Inl y"
    | data0 data where "hjson_loads e (h_text h) = Inr data0" "apply_overrides data0 ovs = Inr data"
    by (metis sum.exhaust)
  then show ?thesis
  proof cases
    case 1
    then show ?thesis using assms by (fastforce simp: Desc_def Let_def config_error_def hjson_errors_def split: if_splits)
  next
    case 2
    then show ?thesis using assms(2) apply_overrides_error [OF 2(2)]
      by (auto simp: Desc_def Let_def config_error_def crash_def split: if_splits)
  next
    case 3
    show ?thesis
    proof (cases "\<exists>dd. data = JDict dd")
      case True
      then show ?thesis using Desc_dict_error [OF 3(1) _ assms(2)] 3(2) by auto
    next
      case False
      then show ?thesis using assms(2) 3
        by (auto simp: Desc_def Let_def required_not_dict config_error_def crash_def split: if_splits)
    qed
  qed
qed

lemma LockDesc_error:
  assumes "hjson_errors e" "LockDesc (hjson_loads e) h = Inl x"
  shows "config_error x \<or> crash x"
proof (cases "hjson_loads e (h_text h)")
  case (Inl y)
  then show ?thesis using assms by (auto simp: LockDesc_def config_error_def hjson_errors_def)
next
  case (Inr data)
  have mm: "\<And>v e'. isinstance v TDict \<Longrightarrow> Upstream ps v = Inl e' \<Longrightarrow> json_error e'" for ps
    by (auto dest: Upstream_error)
  show ?thesis
  proof (cases "\<exists>dd. data = JDict dd")
    case True
    then have "json_error x" using assms(2) Inr by (auto simp: LockDesc_def dest!: required_error dest: mm)
    then show ?thesis by (simp add: config_error_def)
  next
    case False
    then show ?thesis using assms(2) Inr by (simp add: LockDesc_def required_not_dict crash_def)
  qed
qed

lemma lock_file_path_error: "lock_file_path d = Inl x \<Longrightarrow> config_error x"
  by (auto simp: lock_file_path_def with_name_def Let_def config_error_def split: if_splits)

lemma config_not_os: "config_error x \<Longrightarrow> \<not> os_error x"
  by (auto simp: config_error_def json_error_def os_error_def)

definition load_error :: "exn \<Rightarrow> bool" where
  "load_error x \<longleftrightarrow> config_error x \<or> crash x \<or> os_error x"

lemma raises_load_inputs:
  assumes "hjson_errors e"
  shows "raises (\<lambda>x. x = SystemExit 1 \<or> crash x \<or> os_error x) (load_inputs e a)"
proof -
  note errs = Desc_error [OF assms] LockDesc_error [OF assms] lock_file_path_error
  have rf: "raises load_error (read_file p)" for p
    by (rule raises_mono [OF raises_read_file]) (simp add: load_error_def)
  have lk: "raises load_error (load_lock e p)" for p
    unfolding load_lock_def
    by (intro raises_catch [of load_error] raises_bind rf raises_lift raises_ret)
      (auto simp: load_error_def split: exn.splits dest: errs intro: raises_ret)
  show ?thesis unfolding load_inputs_def
    by (intro raises_catch [of load_error] raises_bind lk raises_lift raises_ret)
      (auto simp: load_error_def config_error_def json_error_def split: exn.splits
        dest: errs [unfolded config_error_def json_error_def] intro: raises_raise)
qed

lemma raises_parse_args: "raises (\<lambda>x. x = SystemExit 2) (parse_args c)"
  unfolding parse_args_def usage_error_def
  by (intro raises_bind raises_ret raises_catch [of "\<lambda>_. True"])
    (auto simp: raises_def io_simps)

section \<open>The operations\<close>

lemma raises_handler:
  "(\<And>argv rc out err. raises E (h argv rc out err)) \<Longrightarrow> raises E m \<Longrightarrow>
   raises E (catch m (\<lambda>ex. case ex of CalledProcessError argv rc out err \<Rightarrow> Some (h argv rc out err) | _ \<Rightarrow> None))"
  by (rule raises_catch [of E]) (auto split: exn.splits)

lemma raises_git:
  "raises io_error (git_is_clean_workdir e p)" "raises io_error (clone_git_repo e url dir rv)"
  "raises io_error (git_get_short_rev e p rv)" "raises io_error (produce_shortlog e p mapping old new)"
  "raises io_error (apply_patch e p q)"
proof -
  show "raises io_error (git_is_clean_workdir e p)"
    unfolding git_is_clean_workdir_def by (intro raises_bind raises_run raises_ret)
  show "raises io_error (clone_git_repo e url dir rv)"
    unfolding clone_git_repo_def append.simps by (intro raises_bind raises_run raises_ret)
  show "raises io_error (git_get_short_rev e p rv)"
    unfolding git_get_short_rev_def by (intro raises_bind raises_run raises_ret)
  show "raises io_error (apply_patch e p q)"
    unfolding apply_patch_def append.simps by (intro raises_bind raises_run raises_ret)
  show "raises io_error (produce_shortlog e p mapping old new)"
    unfolding produce_shortlog_def Let_def append.simps
    by (intro raises_handler raises_bind raises_run raises_ret)
qed

text \<open>The commit: its \<open>git add\<close> is the only command whose error escapes that has paths among its
  arguments.\<close>

lemma raises_run_args:
  "raises (\<lambda>x. \<exists>rc out err. x = CalledProcessError args rc out err) (run_args e args inp)"
  by (auto simp: raises_def run_args_def catch_def run_here raise_def split: prod.splits if_splits)

lemma raises_git_add_commit:
  assumes "ps \<noteq> []"
  shows "raises add_error (git_add_commit e ps msg)"
proof (rule raises_pointwise)
  fix w
  let ?b = "PathArg (path_str (path_parent (hd ps)))"
  let ?add = "[Str ''git'', Str ''-C'', ?b, Str ''add''] @ map (\<lambda>p. PathArg (path_str (path_resolve p w))) ps"
  let ?m = "bind (run_args e ?add []) (\<lambda>_. ignore_failure
    (bind (run_args e [Str ''git'', Str ''-C'', ?b, Str ''commit'', Str ''-s'', Str ''-F'', Str ''-''] msg) (\<lambda>_. ret ())))"
  have "raises add_error (run_args e ?add [])"
    by (rule raises_mono [OF raises_run_args])
      (auto simp: add_error_def intro!: exI [of _ "map (\<lambda>p. path_str (path_resolve p w)) ps"])
  moreover have "raises add_error (ignore_failure (bind (run_args e args msg) (\<lambda>_. ret ())))" for args
    unfolding ignore_failure_def
    by (rule raises_catch [of "\<lambda>x. \<exists>rc out err. x = CalledProcessError args rc out err"])
      (auto intro: raises_bind raises_run_args raises_ret)
  ultimately have "raises add_error ?m" by (intro raises_bind)
  then show "\<exists>m. raises add_error m \<and> git_add_commit e ps msg w = m w"
    using assms by (intro exI [of _ ?m]) (simp add: git_add_commit_def Let_def)
qed

text \<open>The ways a run can fail after its arguments are parsed.\<close>

definition run_error :: "exn \<Rightarrow> bool" where
  "run_error x \<longleftrightarrow> x = SystemExit 1 \<or> io_error x \<or> add_error x \<or> crash x \<or> x = ReError"

lemma run_errorI:
  "io_error x \<Longrightarrow> run_error x" "os_error x \<Longrightarrow> run_error x" "add_error x \<Longrightarrow> run_error x"
  "run_error (SystemExit 1)" "run_error AttributeError" "run_error TypeError" "run_error ReError"
  by (auto simp: run_error_def io_error_def crash_def)

lemma raises_io: "raises io_error m \<Longrightarrow> raises run_error m"
  by (erule raises_mono) (rule run_errorI)

lemma raises_os: "raises os_error m \<Longrightarrow> raises run_error m"
  by (erule raises_mono) (rule run_errorI)

lemma raises_import: "raises run_error (import_from_upstream e d up)"
proof -
  have cs: "raises run_error (copy_sources up src dst ex)" for src dst ex
  proof (rule raises_pointwise)
    fix w
    let ?m = "if is_file src w then copy_file src dst
      else copytree src dst (ignore_patterns (abs_str (cwd w)) (path_str up) ex)"
    have "raises run_error ?m" by (intro raises_if raises_os raises_copy_file raises_copytree)
    then show "\<exists>m. raises run_error m \<and> copy_sources up src dst ex w = m w"
      by (intro exI [of _ ?m]) (simp add: copy_sources_def)
  qed
  have ap: "raises run_error (apply_patches e own dir to)" for own dir to
  proof (rule raises_pointwise)
    fix w
    let ?m = "case own of None \<Rightarrow> ret () | Some o' \<Rightarrow> (case dir of None \<Rightarrow> raise TypeError
      | Some d \<Rightarrow> for_each (sorted_patches (path_join d o') w) (apply_patch e to))"
    have "raises run_error ?m"
      by (intro raises_option raises_ret raises_raise raises_for_each raises_io raises_git run_errorI)
    then show "\<exists>m. raises run_error m \<and> apply_patches e own dir to w = m w"
      by (intro exI [of _ ?m]) (simp add: apply_patches_def split: option.splits)
  qed
  show ?thesis
    unfolding import_from_upstream_def Mapping1_import_from_upstream_def Let_def
    by (intro raises_bind raises_rmtree raises_for_each raises_os [OF raises_mkdir_parents] cs ap)
qed

lemma raises_refresh: "raises run_error (refresh_patches e d)"
proof -
  have x: "raises run_error (export_patches e url dir a b)" for url dir a b
  proof -
    have "raises run_error (\<lambda>w. bind (run e (Some c)
               ([''git'', ''format-patch'', ''--no-signature'', ''--no-stat'', ''-o'',
                 path_str (path_resolve dir w),
                 ''origin/'' @ a @ ''..'' @ ''origin/'' @ b] @ quiet e) []) (\<lambda>_. ret ()) w)" for c
      unfolding append.simps by (rule raises_look) (intro raises_bind raises_io raises_run raises_ret)
    then show ?thesis unfolding export_patches_def
      by (intro raises_with_tempdir raises_bind raises_io [OF raises_git(2)] run_errorI)
  qed
  have "raises run_error (\<lambda>w. bind (for_each (glob dir pat w) unlink) (\<lambda>_. export_patches e url dir a b) w)"
    for dir pat url a b
    by (rule raises_look) (intro raises_bind raises_for_each raises_os raises_unlink x)
  then show ?thesis unfolding refresh_patches_def
    by (intro raises_option raises_raise run_errorI)
qed

lemma parse_template_error: "parse_template s = Inl x \<Longrightarrow> x = ReError"
proof (induction s arbitrary: x rule: length_induct)
  case (1 s)
  then have IH: "parse_template t = Inl x \<Longrightarrow> length t < length s \<Longrightarrow> x = ReError" for t x by blast
  have drop: "length (drop n r) \<le> length r" "length (tl r) \<le> length r" for n and r :: string by simp_all
  show ?case
  proof (cases s)
    case (Cons b s')
    show ?thesis using "1.prems" unfolding Cons
      by (subst (asm) parse_template.simps)
        (auto simp: add_group_def add_lits_def res_simps Let_def Cons dest!: IH
          split: if_splits list.splits option.splits)
  qed (use "1.prems" in simp)
qed

lemma qualify_error: "github_qualify_references log org name = Inl x \<Longrightarrow> x = ReError"
  unfolding github_qualify_references_def
  by (induction log) (auto simp: res_simps dest: parse_template_error)

lemma raises_get_shortlog: "raises run_error (get_shortlog e u d lock ch p rv)"
  unfolding get_shortlog_def
  by (intro raises_option raises_if raises_ret raises_bind raises_io [OF raises_git(4)] raises_lift)
    (auto split: option.splits dest: qualify_error intro: run_errorI)

lemma raises_commit_changes: "raises run_error (commit_changes e a d lp p rv sl)"
proof -
  have "raises run_error (git_add_commit e ([d_target_dir d] @ ps @ [lp]) msg)" for ps msg
    by (rule raises_mono [OF raises_git_add_commit]) (simp_all add: run_errorI)
  then show ?thesis unfolding commit_changes_def
    by (intro raises_if raises_bind raises_io [OF raises_git(3)] raises_option raises_raise raises_ret
        run_errorI)
qed

lemma raises_fetch: "raises run_error (fetch e a d lp lock ch dir)"
proof -
  have "raises run_error (check_revision u lk rv)" for u lk rv
    unfolding check_revision_def by (intro raises_option raises_if raises_ret raises_raise run_errorI)
  moreover have "raises run_error (enter_subdir d p)" for p
    by (auto simp: raises_def enter_subdir_def Let_def io_simps intro: run_errorI split: option.splits if_splits)
  moreover have "raises run_error (write_lock e u d lp rv)" for u rv
    unfolding write_lock_def by (intro raises_if raises_os raises_write_file raises_ret)
  ultimately show ?thesis unfolding fetch_def Let_def
    by (intro raises_bind raises_io [OF raises_git(2)] raises_import raises_get_shortlog raises_commit_changes)
qed

lemma raises_main:
  assumes "hjson_errors e"
  shows "raises (\<lambda>x. x = SystemExit 2 \<or> run_error x) (main e c)"
proof -
  have cc: "raises run_error (check_clean e a d)" for a d
    unfolding check_clean_def
    by (intro raises_if raises_bind raises_io [OF raises_git(1)] raises_ret raises_raise run_errorI)
  have li: "raises run_error (load_inputs e a)" for a
    by (rule raises_mono [OF raises_load_inputs [OF assms]]) (auto simp: run_error_def io_error_def)
  have "raises run_error (bind (check_clean e a d0) (\<lambda>_. bind (if a_refresh a then refresh_patches e d else ret ())
      (\<lambda>_. with_tempdir e (fetch e a d lp lock ch))))" for a d0 d lp lock ch
    by (intro raises_bind cc raises_if raises_refresh raises_ret raises_with_tempdir raises_fetch run_errorI)
  then have "raises run_error (vendor e a)" for a
    unfolding vendor_def Let_def by (intro raises_bind li) (auto split: prod.splits)
  then have "raises (\<lambda>x. x = SystemExit 2 \<or> run_error x) (vendor e a)" for a
    by (rule raises_mono) simp
  moreover have "raises (\<lambda>x. x = SystemExit 2 \<or> run_error x) (parse_args c)"
    by (rule raises_mono [OF raises_parse_args]) simp
  ultimately show ?thesis unfolding main_def by (intro raises_bind)
qed

text \<open>C7: the ways a run can fail. The errors of the command line, of the description and of the lock file
  (bad overrides, a bad file name, text that is not Hjson, missing or wrong fields) never escape as
  exceptions: they end the run with status 1 or 2, as do failed checks. Otherwise the script ends
  with the error of the file system or of the \<open>git\<close> command that failed, or by one of three crashes:
  \<open>AttributeError\<close> or \<open>TypeError\<close> from a value of the wrong type, and \<open>re.error\<close>. A failing
  \<open>git add\<close> is among the crashes: its arguments are paths, and joining them for the report raises
  \<open>TypeError\<close> in place of the error of the command.\<close>

theorem script_failures:
  assumes "hjson_errors e" "script e c w = (Inl x, w')"
  shows "(x \<in> {SystemExit 1, SystemExit 2} \<or> os_error x \<or> git_error x \<or> x \<in> {AttributeError, TypeError, ReError})
    \<and> (\<forall>y. main e c w = (Inl y, w') \<and> add_error y \<longrightarrow> x = TypeError)"
proof -
  have all: "list_all is_str_arg (map Str ss)" for ss by (induction ss) simp_all
  obtain y where y: "main e c w = (Inl y, w')"
    "x = (case y of CalledProcessError cmd rc out err \<Rightarrow> if list_all is_str_arg cmd then y else TypeError | _ \<Rightarrow> y)"
    using assms(2) by (auto simp: script_def catch_def raise_def split: prod.splits sum.splits exn.splits)
  have "y = SystemExit 2 \<or> run_error y" using raisesD [OF raises_main [OF assms(1)] y(1)] .
  then have "x \<in> {SystemExit 1, SystemExit 2} \<or> os_error x \<or> git_error x \<or> x \<in> {AttributeError, TypeError, ReError}"
    using y(2) all [of "''git'' # _"]
    by (auto simp: run_error_def io_error_def crash_def os_error_def git_error_def add_error_def)
  moreover have "x = TypeError" if "add_error y" using that y(2) by (auto simp: add_error_def)
  ultimately show ?thesis using y(1) by auto
qed

text \<open>A \<open>git\<close> that refuses to add.\<close>

definition ex_no_add :: env where
  "ex_no_add = (ex_env [])\<lparr>ext := (\<lambda>argv l inp t.
     if 3 < length argv \<and> argv ! 3 = ''add'' then (128, [], [], t) else ex_git [] argv l inp t)\<rparr>"

theorem script_failures_witness: "fst (script ex_no_add ex_commit_line ex_full) = Inl TypeError"
proof -
  let ?y = "CalledProcessError ([Str ''git'', Str ''-C'', PathArg ''v'', Str ''add'']
    @ map PathArg [''/w/v/ip'', ''/w/v/ip.lock.hjson'']) 128 [] []"
  have "fst (main ex_no_add ex_commit_line ex_full) = Inl ?y" unfolding ex_no_add_def by code_simp
  then obtain w' where m: "main ex_no_add ex_commit_line ex_full = (Inl ?y, w')" by (metis prod.collapse)
  then obtain x where x: "script ex_no_add ex_commit_line ex_full = (Inl x, w')"
    by (simp add: script_def catch_def raise_def)
  have "hjson_errors ex_no_add" by (simp add: hjson_errors_def ex_no_add_def ex_env_def)
  moreover have "add_error ?y" unfolding add_error_def by blast
  ultimately show ?thesis using script_failures [OF _ x] m x by simp
qed

section \<open>Bad input\<close>

text \<open>How the program fails on a description that gives no \<open>Desc\<close>: with exit status 1 for a bad file name,
  for text that is not Hjson and for a dictionary with missing or wrong fields; it crashes when an override
  walks into something that is not a dictionary, or when the document is not a dictionary.\<close>

definition desc_failure :: "env \<Rightarrow> args \<Rightarrow> exn" where
  "desc_failure e a =
     (if \<not> desc_name_ok (h_name (a_desc_file a)) then SystemExit 1
      else case hjson_loads e (h_text (a_desc_file a)) of
             Inl x \<Rightarrow> SystemExit 1
           | Inr data0 \<Rightarrow>
               (case apply_overrides data0 (a_overrides a) of
                  Inl x \<Rightarrow> TypeError
                | Inr (JDict dd) \<Rightarrow> SystemExit 1
                | Inr _ \<Rightarrow> AttributeError))"

definition report :: "exn \<Rightarrow> exn" where
  "report x = (if config_error x then SystemExit 1 else x)"

lemma load_inputs_fails:
  "Desc (hjson_loads e) (a_desc_file a) (a_overrides a) = Inl x \<Longrightarrow> load_inputs e a w = (Inl (report x), w)"
  by (cases x) (auto simp: load_inputs_def catch_def io_simps report_def config_error_def json_error_def)

lemma Desc_failure:
  assumes "hjson_errors e" "Desc (hjson_loads e) (a_desc_file a) (a_overrides a) = Inl x"
  shows "report x = desc_failure e a"
proof -
  let ?h = "a_desc_file a"
  consider "\<not> desc_name_ok (h_name ?h)"
    | y where "desc_name_ok (h_name ?h)" "hjson_loads e (h_text ?h) = Inl y"
    | data0 y where "desc_name_ok (h_name ?h)" "hjson_loads e (h_text ?h) = Inr data0"
        "apply_overrides data0 (a_overrides a) = Inl y"
    | data0 data where "desc_name_ok (h_name ?h)" "hjson_loads e (h_text ?h) = Inr data0"
        "apply_overrides data0 (a_overrides a) = Inr data"
    by (metis sum.exhaust)
  then show ?thesis
  proof cases
    case 1
    then show ?thesis using assms(2) by (auto simp: Desc_def report_def config_error_def desc_failure_def)
  next
    case 2
    moreover from this(2) obtain v where "y = ValueError v" using assms(1) by (auto simp: hjson_errors_def)
    ultimately show ?thesis using assms(2)
      by (auto simp: Desc_def Let_def report_def config_error_def desc_failure_def)
  next
    case 3
    then show ?thesis using assms(2) apply_overrides_error [OF 3(3)]
      by (auto simp: Desc_def Let_def report_def config_error_def json_error_def desc_failure_def)
  next
    case 4
    show ?thesis
    proof (cases "\<exists>dd. data = JDict dd")
      case True
      then show ?thesis using Desc_dict_error [OF 4(2) _ assms(2)] 4 by (auto simp: report_def desc_failure_def)
    next
      case False
      then have "x = AttributeError" using assms(2) 4 by (simp add: Desc_def Let_def required_not_dict)
      then show ?thesis using False 4
        by (cases data) (auto simp: report_def config_error_def json_error_def desc_failure_def)
    qed
  qed
qed

lemma LockDesc_failure:
  assumes "hjson_errors e" "LockDesc (hjson_loads e) h = Inl x"
  shows "report x = (if \<exists>data. hjson_loads e (h_text h) = Inr data \<and> (\<forall>dd. data \<noteq> JDict dd)
    then AttributeError else SystemExit 1)"
proof (cases "hjson_loads e (h_text h)")
  case (Inl y)
  then show ?thesis using assms by (auto simp: LockDesc_def hjson_errors_def report_def config_error_def)
next
  case (Inr data)
  show ?thesis
  proof (cases "\<exists>dd. data = JDict dd")
    case True
    then have "json_error x" using assms(2) Inr
      by (auto simp: LockDesc_def dest!: required_error dest: Upstream_error)
    then show ?thesis using Inr True by (auto simp: report_def config_error_def)
  next
    case False
    then show ?thesis using assms(2) Inr
      by (auto simp: LockDesc_def required_not_dict report_def config_error_def json_error_def)
  qed
qed

lemma load_lock_fails:
  assumes "Desc (hjson_loads e) (a_desc_file a) (a_overrides a) = Inr d" "lock_file_path d = Inr lp"
    and "read_file lp w = (Inr s, w)" "LockDesc (hjson_loads e) \<lparr>h_name = path_str lp, h_text = s\<rparr> = Inl x"
    and "config_error x \<or> crash x"
  shows "load_inputs e a w = (Inl (report x), w)"
  using assms
  by (cases x) (auto simp: load_inputs_def load_lock_def catch_def io_simps report_def config_error_def
      json_error_def crash_def)

lemma main_loads: "parse_args c w = (Inr a, w) \<Longrightarrow> load_inputs e a w = (Inl x, w) \<Longrightarrow> main e c w = (Inl x, w)"
  by (simp add: main_def vendor_def io_simps)

lemma parse_args_fails:
  assumes "(\<exists>o'\<in>set (c_overrides c). \<forall>kv. define_arg_type o' \<noteq> Inr kv) \<or>
    (c_file c \<noteq> ''-'' \<and> \<not> is_file (mk_path (c_file c)) w)"
  shows "parse_args c w = (Inl (SystemExit 2), w)"
proof (cases "rmap define_arg_type (c_overrides c)")
  case (Inr ovs)
  then have "\<not> (\<exists>o'\<in>set (c_overrides c). \<forall>kv. define_arg_type o' \<noteq> Inr kv)"
    using rmap_Inr_mem [OF Inr] by blast
  with assms have f: "c_file c \<noteq> ''-''" "\<not> is_file (mk_path (c_file c)) w" by blast+
  have "\<exists>x. read_file (mk_path (c_file c)) w = (Inl x, w)"
    using f(2) by (auto simp: read_file_def is_file_def stat_def split: sum.splits option.splits node.splits)
  then show ?thesis using Inr f(1) by (auto simp: parse_args_def catch_def usage_error_def io_simps)
qed (simp add: parse_args_def catch_def usage_error_def io_simps)

text \<open>C38: what bad input does, before anything else is done. A bad override, or a description file that
  is not there, ends the program with exit status 2. A description that gives no \<open>Desc\<close> ends it with exit
  status 1 if its name is bad, if its text is not Hjson, or if it is a dictionary, whatever is wrong with
  the fields; it crashes with \<open>TypeError\<close> or \<open>AttributeError\<close> only where an override meets, or the document
  is, something else than a dictionary. A lock file that cannot be read as one ends it with exit status
  1 too, or crashes it when it is not a dictionary.\<close>

theorem bad_input_exits:
  assumes "hjson_errors e"
  shows "((\<exists>o'\<in>set (c_overrides c). \<forall>kv. define_arg_type o' \<noteq> Inr kv) \<or>
        (c_file c \<noteq> ''-'' \<and> \<not> is_file (mk_path (c_file c)) w)
        \<longrightarrow> main e c w = (Inl (SystemExit 2), w))
    \<and> (parse_args c w = (Inr a, w) \<and> (\<forall>d. Desc (hjson_loads e) (a_desc_file a) (a_overrides a) \<noteq> Inr d)
        \<longrightarrow> main e c w = (Inl (desc_failure e a), w))
    \<and> (parse_args c w = (Inr a, w) \<and> Desc (hjson_loads e) (a_desc_file a) (a_overrides a) = Inr d
        \<and> lock_file_path d = Inr lp \<and> read_file lp w = (Inr s, w)
        \<and> (\<forall>u. LockDesc (hjson_loads e) \<lparr>h_name = path_str lp, h_text = s\<rparr> \<noteq> Inr u)
        \<longrightarrow> main e c w = (Inl (if \<exists>data. hjson_loads e s = Inr data \<and> (\<forall>dd. data \<noteq> JDict dd)
               then AttributeError else SystemExit 1), w))"
proof (intro conjI impI; (elim conjE)?)
  show "main e c w = (Inl (SystemExit 2), w)"
    if "(\<exists>o'\<in>set (c_overrides c). \<forall>kv. define_arg_type o' \<noteq> Inr kv) \<or>
        (c_file c \<noteq> ''-'' \<and> \<not> is_file (mk_path (c_file c)) w)"
    using parse_args_fails [OF that] by (simp add: main_def io_simps)
  show "main e c w = (Inl (desc_failure e a), w)"
    if "parse_args c w = (Inr a, w)" "\<forall>d. Desc (hjson_loads e) (a_desc_file a) (a_overrides a) \<noteq> Inr d"
  proof (cases "Desc (hjson_loads e) (a_desc_file a) (a_overrides a)")
    case (Inl x)
    then show ?thesis
      using main_loads [OF that(1) load_inputs_fails [OF Inl]] Desc_failure [OF assms Inl] by simp
  qed (use that(2) in simp)
  show "main e c w = (Inl (if \<exists>data. hjson_loads e s = Inr data \<and> (\<forall>dd. data \<noteq> JDict dd)
      then AttributeError else SystemExit 1), w)"
    if "parse_args c w = (Inr a, w)" "Desc (hjson_loads e) (a_desc_file a) (a_overrides a) = Inr d"
      "lock_file_path d = Inr lp" "read_file lp w = (Inr s, w)"
      "\<forall>u. LockDesc (hjson_loads e) \<lparr>h_name = path_str lp, h_text = s\<rparr> \<noteq> Inr u"
  proof (cases "LockDesc (hjson_loads e) \<lparr>h_name = path_str lp, h_text = s\<rparr>")
    case (Inl x)
    then show ?thesis
      using main_loads [OF that(1) load_lock_fails [OF that(2-4) Inl LockDesc_error [OF assms Inl]]]
        LockDesc_failure [OF assms Inl] by simp
  qed (use that(5) in simp)
qed

text \<open>A bad key, a file that is missing, a description that is a list, one without a name, and a lock file
  that is not Hjson.\<close>

definition ex_line :: "string list \<Rightarrow> string \<Rightarrow> cmdline" where
  "ex_line overrides file = \<lparr>c_update = False, c_refresh = False, c_commit = False,
     c_overrides = overrides, c_file = file\<rparr>"

definition ex_bad :: "json \<Rightarrow> env" where
  "ex_bad j = (ex_env [])\<lparr>hjson_loads := (\<lambda>s. if s = ''desc'' then Inr j else Inl (ValueError ''text''))\<rparr>"

definition ex_inputs :: world where
  "ex_inputs = \<lparr>tree = Dir [(''v'', Dir [(''ip.vendor.hjson'', File ''desc''), (''ip.lock.hjson'', File ''lock'')])],
     cwd = [], trace = []\<rparr>"

definition ex_read :: args where
  "ex_read = \<lparr>a_update = False, a_refresh = False, a_commit = False, a_overrides = [],
     a_desc_file = \<lparr>h_name = ''v/ip.vendor.hjson'', h_text = ''desc''\<rparr>\<rparr>"

theorem bad_input_exits_witness:
  "main (ex_bad ex_doc) (ex_line [''name=b''] ''v/ip.vendor.hjson'') ex_inputs = (Inl (SystemExit 2), ex_inputs)
    \<and> main (ex_bad ex_doc) (ex_line [] ''v/no.vendor.hjson'') ex_inputs = (Inl (SystemExit 2), ex_inputs)
    \<and> main (ex_bad (JList [])) (ex_line [] ''v/ip.vendor.hjson'') ex_inputs = (Inl AttributeError, ex_inputs)
    \<and> main (ex_bad (JDict [])) (ex_line [] ''v/ip.vendor.hjson'') ex_inputs = (Inl (SystemExit 1), ex_inputs)
    \<and> main (ex_bad ex_doc) (ex_line [] ''v/ip.vendor.hjson'') ex_inputs = (Inl (SystemExit 1), ex_inputs)"
proof -
  have hj: "hjson_errors (ex_bad j)" for j by (simp add: hjson_errors_def ex_bad_def)
  have loads: "hjson_loads (ex_bad j) = (\<lambda>s. if s = ''desc'' then Inr j else Inl (ValueError ''text''))" for j
    by (simp add: ex_bad_def)
  have p: "parse_args (ex_line [] ''v/ip.vendor.hjson'') ex_inputs = (Inr ex_read, ex_inputs)" by code_simp
  have name: "desc_name_ok (h_name (a_desc_file ex_read))" by code_simp
  have no: "desc_failure (ex_bad (JList [])) ex_read = AttributeError"
    "desc_failure (ex_bad (JDict [])) ex_read = SystemExit 1"
    using name by (simp_all add: desc_failure_def loads ex_read_def)
  have d: "\<exists>x. Desc (hjson_loads (ex_bad j)) (a_desc_file ex_read) (a_overrides ex_read) = Inl x"
    if "j = JList [] \<or> j = JDict []" for j
    using that name
    by (auto simp: Desc_def Let_def loads ex_read_def required_def get_field_def)
  have l: "Desc (hjson_loads (ex_bad ex_doc)) (a_desc_file ex_read) (a_overrides ex_read) = Inr (ex_desc ''r'')"
    "LockDesc (hjson_loads (ex_bad ex_doc)) \<lparr>h_name = path_str ex_lock, h_text = ''lock''\<rparr> = Inl (ValueError ''text'')"
    unfolding loads by code_simp+
  have r: "lock_file_path (ex_desc ''r'') = Inr ex_lock" "read_file ex_lock ex_inputs = (Inr ''lock'', ex_inputs)"
    by code_simp+
  have "define_arg_type ''name=b'' = Inl (ArgumentTypeError ''invalid configuration override'' ''name'')"
    "\<not> is_file (mk_path ''v/no.vendor.hjson'') ex_inputs" by code_simp+
  then have "main (ex_bad ex_doc) (ex_line [''name=b''] ''v/ip.vendor.hjson'') ex_inputs = (Inl (SystemExit 2), ex_inputs)"
    "main (ex_bad ex_doc) (ex_line [] ''v/no.vendor.hjson'') ex_inputs = (Inl (SystemExit 2), ex_inputs)"
    using bad_input_exits [OF hj, of "ex_line [''name=b''] ''v/ip.vendor.hjson''"]
      bad_input_exits [OF hj, of "ex_line [] ''v/no.vendor.hjson''"] by (simp_all add: ex_line_def)
  moreover have "main (ex_bad j) (ex_line [] ''v/ip.vendor.hjson'') ex_inputs = (Inl (desc_failure (ex_bad j) ex_read), ex_inputs)"
    if "j = JList [] \<or> j = JDict []" for j
    using bad_input_exits [OF hj, of "ex_line [] ''v/ip.vendor.hjson''" ex_inputs j ex_read] p d [OF that] by auto
  moreover have "main (ex_bad ex_doc) (ex_line [] ''v/ip.vendor.hjson'') ex_inputs = (Inl (SystemExit 1), ex_inputs)"
    using bad_input_exits [OF hj, of "ex_line [] ''v/ip.vendor.hjson''" ex_inputs ex_doc ex_read "ex_desc ''r''" ex_lock
      "''lock''"] p l r
    by (simp add: loads)
  ultimately show ?thesis using no by simp
qed

end
