(* ===== verification/TextWrapProps.thy ===== *)
theory TextWrapProps
  imports TextWrap
begin

text \<open>
  The promises of the filling: no line is too long, no text is lost, and when the loop ends. What is
  assumed of the cut of a text into chunks is \<open>cuts_text\<close>.
\<close>

lemma next_line_width:
  assumes "next_line w cs = (line, rest)" "0 < w"
  shows "int (length (concat line)) \<le> w"
proof -
  obtain l n r where t: "take_line w 0 cs = (l, n, r)" by (metis prod_cases3)
  note s = take_line_split [OF t]
  have "int (length (take (long_word_end w n c) c)) \<le> w - int n" for c
    using long_word_end_le [of w n c] assms(2) s by (auto simp: min_def)
  then show ?thesis using assms t s
    by (cases r) (auto simp: next_line_def add.commute le_diff_eq split: if_splits)
qed

lemma drop_last_blank_length: "length (concat (drop_last_blank line)) \<le> length (concat line)"
  by (cases line rule: rev_cases) (auto simp: drop_last_blank_def)

lemma skip_blank_cases: "cs \<noteq> [] \<Longrightarrow> skip_blank s cs = cs \<or> (\<exists>c. blank c \<and> cs = c # skip_blank s cs)"
  by (cases cs) (auto simp: skip_blank_def)

lemma wrap_chunks_width:
  assumes "int (length ind1) < width" "int (length ind2) < width"
  shows "\<exists>lines. wrap_chunks ind1 ind2 width s cs = Some lines \<and> (\<forall>l\<in>set lines. int (length l) \<le> width)"
proof (rule wrap_chunks_induct [where P = "\<lambda>_ _ lines. \<forall>l\<in>set lines. int (length l) \<le> width"])
  fix s chunks line rest and lines :: "string list"
  let ?i = "if s then ind2 else ind1"
  assume nl: "next_line (width - int (length ?i)) (skip_blank s chunks) = (line, rest)"
    and IH: "\<forall>l\<in>set lines. int (length l) \<le> width"
  have "int (length (concat line)) \<le> width - int (length ?i)"
    using next_line_width [OF nl] assms by simp
  then have "int (length (?i @ concat (drop_last_blank line))) \<le> width"
    using drop_last_blank_length [of line] by simp
  then show "\<forall>l\<in>set ((?i @ concat (drop_last_blank line)) # lines). int (length l) \<le> width"
    using IH by simp
qed (use assms in simp_all)

section \<open>Nothing is lost\<close>

definition visible :: "string \<Rightarrow> string" where
  "visible s = filter (\<lambda>c. \<not> is_space c) s"

lemma visible_Nil [simp]: "visible [] = []"
  by (simp add: visible_def)

lemma visible_append [simp]: "visible (a @ b) = visible a @ visible b"
  by (simp add: visible_def)

lemma visible_blank: "visible c = [] \<longleftrightarrow> blank c"
  by (auto simp: visible_def blank_def list_all_iff filter_empty_conv)

text \<open>What the library does with a text: it makes every white space character a blank and cuts the
  text into pieces of white space and pieces that begin with another character; a text of white space
  only is one piece.\<close>

definition cuts_text :: "(string \<Rightarrow> string list) \<Rightarrow> string \<Rightarrow> bool" where
  "cuts_text chunks_of s \<longleftrightarrow>
     visible (concat (chunks_of s)) = visible s
     \<and> (\<forall>c\<in>set (chunks_of s). c \<noteq> [] \<and> newline \<notin> set c \<and> (blank c \<or> \<not> is_space (hd c)))
     \<and> (visible s = [] \<longrightarrow> length (chunks_of s) \<le> 1)"

lemma next_line_concat:
  assumes "next_line w cs = (line, rest)"
  shows "concat line @ concat rest = concat cs"
proof -
  obtain l n r where t: "take_line w 0 cs = (l, n, r)" by (metis prod_cases3)
  then have "concat cs = concat l @ concat r" using take_line_split by (metis concat_append)
  then show ?thesis using assms t by (cases r) (auto simp: next_line_def split: if_splits)
qed

lemma drop_last_blank_visible: "visible (concat (drop_last_blank line)) = visible (concat line)"
  by (cases line rule: rev_cases) (auto simp: drop_last_blank_def visible_blank)

lemma skip_blank_visible: "cs \<noteq> [] \<Longrightarrow> visible (concat (skip_blank s cs)) = visible (concat cs)"
  using skip_blank_cases [of cs s] visible_blank by (metis append_Nil concat.simps(2) visible_append)

lemma round_visible:
  assumes "chunks \<noteq> []" "next_line w (skip_blank s chunks) = (line, rest)"
  shows "visible (concat chunks) = visible (concat (drop_last_blank line)) @ visible (concat rest)"
  using next_line_concat [OF assms(2)] skip_blank_visible [OF assms(1), of s]
  by (metis drop_last_blank_visible visible_append)

lemma newline_space: "is_space newline"
  by (simp add: char_class_defs)

lemma visible_join_newline: "visible (join_with [newline] ls) = visible (concat ls)"
proof (induction ls)
  case (Cons l ls)
  have "visible [newline] = []" by (simp add: visible_def newline_space)
  then have "visible (newline # v) = visible v" for v by (simp add: visible_def split: if_splits)
  with Cons show ?case by (cases "ls = []") (simp_all add: join_with_Cons)
qed simp

text \<open>The lines show the first indentation once, when there is a line, and then the chunks; each of
  them starts with an indentation and has no character that is in neither.\<close>

lemma wrap_chunks_visible:
  assumes "visible ind2 = []" "s \<or> int (length ind1) \<le> width"
  shows "\<exists>lines. wrap_chunks ind1 ind2 width s cs = Some lines \<and>
    visible (concat lines) = (if s \<or> lines = [] then [] else visible ind1) @ visible (concat cs)"
  by (rule wrap_chunks_induct [where P = "\<lambda>s cs lines. visible (concat lines) =
        (if s \<or> lines = [] then [] else visible ind1) @ visible (concat cs)"])
    (use assms in \<open>auto simp: round_visible split: if_splits\<close>)

lemma wrap_chunks_chars:
  assumes "s \<or> int (length ind1) \<le> width"
  shows "\<exists>lines. wrap_chunks ind1 ind2 width s cs = Some lines \<and>
    (\<forall>l\<in>set lines. set l \<subseteq> set ind1 \<union> set ind2 \<union> set (concat cs))"
proof (rule wrap_chunks_induct [where P = "\<lambda>_ cs lines.
    \<forall>l\<in>set lines. set l \<subseteq> set ind1 \<union> set ind2 \<union> set (concat cs)", OF assms])
  fix s chunks line rest lines
  assume r: "chunks \<noteq> []"
    "next_line (width - int (length (if s then ind2 else ind1))) (skip_blank s chunks) = (line, rest)"
    and IH: "\<forall>l\<in>set lines. set l \<subseteq> set ind1 \<union> set ind2 \<union> set (concat rest)"
  have "set (concat (skip_blank s chunks)) \<subseteq> set (concat chunks)"
    using skip_blank_cases [OF r(1), of s] by (metis Un_upper2 concat.simps(2) order_refl set_append)
  then have sub: "set (concat rest) \<subseteq> set (concat chunks)" "set (concat line) \<subseteq> set (concat chunks)"
    using arg_cong [OF next_line_concat [OF r(2)], of set] by (auto simp del: set_concat)
  then have rest: "\<forall>l\<in>set lines. set l \<subseteq> set ind1 \<union> set ind2 \<union> set (concat chunks)" using IH by blast
  have "set (concat (drop_last_blank line)) \<subseteq> set (concat line)"
    by (cases line rule: rev_cases) (auto simp: drop_last_blank_def)
  then have "set ((if s then ind2 else ind1) @ concat (drop_last_blank line))
      \<subseteq> set ind1 \<union> set ind2 \<union> set (concat chunks)"
    using sub(2) by (auto simp del: set_concat)
  then show "\<forall>l\<in>set (((if s then ind2 else ind1) @ concat (drop_last_blank line)) # lines).
      set l \<subseteq> set ind1 \<union> set ind2 \<union> set (concat chunks)" using rest by simp
  show "\<forall>l\<in>set lines. set l \<subseteq> set ind1 \<union> set ind2 \<union> set (concat chunks)" by (rule rest)
qed simp

text \<open>A single chunk of white space gives no line.\<close>

lemma next_line_blank:
  assumes "next_line w cs = (line, rest)" "length cs \<le> 1" "list_all blank cs"
  shows "drop_last_blank line = [] \<and> length rest \<le> 1 \<and> list_all blank rest"
proof (cases cs)
  case (Cons c cs')
  then have c: "cs = [c]" "blank c" using assms(2,3) by auto
  have "blank (take k c)" "blank (drop k c)" for k
    using c(2) by (auto simp: blank_def list_all_iff dest: in_set_takeD in_set_dropD)
  then show ?thesis using assms(1) c by (auto simp: next_line_def drop_last_blank_def split: if_splits)
qed (use assms(1) in \<open>auto simp: next_line_def drop_last_blank_def\<close>)

lemma wrap_chunks_blank:
  assumes "int (length ind1) \<le> width" "length cs \<le> 1" "list_all blank cs"
  shows "wrap_chunks ind1 ind2 width False cs = Some []"
proof -
  have "\<exists>lines. wrap_chunks ind1 ind2 width False cs = Some lines \<and>
      (\<not> False \<and> length cs \<le> 1 \<and> list_all blank cs \<longrightarrow> lines = [])"
    by (rule wrap_chunks_induct [where P = "\<lambda>s cs lines. \<not> s \<and> length cs \<le> 1 \<and> list_all blank cs \<longrightarrow> lines = []"])
      (use assms(1) in \<open>auto simp: skip_blank_def dest!: next_line_blank\<close>)
  then show ?thesis using assms by auto
qed

text \<open>The lines of a text are what \<open>fill\<close> joins.\<close>

lemma fill_lines:
  assumes "0 < width" "wrap_chunks ind1 ind2 width False (chunks_of s) = Some lines"
  shows "fill chunks_of ind1 ind2 width s = Some (Inr (join_with [newline] lines))"
  using assms by (simp add: fill_def wrap_def)

lemma fill_visible:
  assumes "1 < width" "cuts_text chunks_of s"
  shows "\<exists>text. fill chunks_of ''* '' ''  '' width s = Some (Inr text)
    \<and> visible text = (if visible s = [] then [] else CHR ''*'' # visible s)"
proof (cases "visible s = []")
  case True
  then have "list_all blank (chunks_of s)"
    using assms(2) by (auto simp: cuts_text_def visible_def filter_empty_conv blank_def list_all_iff)
  then have "wrap_chunks ''* '' ''  '' width False (chunks_of s) = Some []"
    using True assms by (intro wrap_chunks_blank) (simp_all add: cuts_text_def)
  from fill_lines [where chunks_of = chunks_of and s = s, OF _ this] show ?thesis
    using True assms(1) by simp
next
  case False
  have ind: "visible ''  '' = []" "visible ''* '' = ''*''" by (simp_all add: visible_def char_class_defs)
  obtain lines where l: "wrap_chunks ''* '' ''  '' width False (chunks_of s) = Some lines"
    "visible (concat lines) = (if lines = [] then [] else ''*'') @ visible s"
    using wrap_chunks_visible [OF ind(1), of False "''* ''" width "chunks_of s"] assms ind(2)
    by (auto simp: cuts_text_def)
  then have "lines \<noteq> []" using False by auto
  then show ?thesis
    using fill_lines [where chunks_of = chunks_of and s = s, OF _ l(1)] l(2) assms(1) False by (simp add: visible_join_newline)
qed

lemma concat_visible: "visible (concat ls) = concat (map visible ls)"
  by (induction ls) simp_all

text \<open>C26: at a width above 1, formatting returns and loses nothing but white space: each text with a
  visible character shows a star and then its visible characters in their order, and a text of white
  space shows nothing.\<close>

theorem format_list_to_str_keeps_text:
  assumes "1 < width" "\<forall>s\<in>set texts. cuts_text chunks_of s"
  shows "\<exists>out. format_list_to_str chunks_of texts width = Some (Inr out)
    \<and> visible out = concat (map (\<lambda>s. if visible s = [] then [] else CHR ''*'' # visible s) texts)"
proof -
  define g where "g s = projr (the (fill chunks_of ''* '' ''  '' width s))" for s
  have g: "fill chunks_of ''* '' ''  '' width s = Some (Inr (g s))"
    "visible (g s) = (if visible s = [] then [] else CHR ''*'' # visible s)" if "s \<in> set texts" for s
    using fill_visible [OF assms(1), of chunks_of s] that assms(2) by (auto simp: g_def)
  have "format_list_to_str chunks_of texts width = Some (Inr (join_with [newline] (map g texts)))"
    using each_total [of texts _ g] g(1) by (simp add: format_list_to_str_def)
  moreover have "visible (join_with [newline] (map g texts)) =
      concat (map (\<lambda>s. if visible s = [] then [] else CHR ''*'' # visible s) texts)"
    unfolding visible_join_newline concat_visible map_map
    by (intro arg_cong [of _ _ concat]) (simp add: g(2))
  ultimately show ?thesis by blast
qed

text \<open>A cut of four texts, one of them with a leading blank and one of white space only.\<close>

definition ex_chunks :: "string \<Rightarrow> string list" where
  "ex_chunks s =
     (if s = ''fix the bug'' then [''fix'', '' '', ''the'', '' '', ''bug''] else
      if s = ''re-use it'' then [''re-'', ''use'', '' '', ''it''] else
      if s = '' a'' then ['' '', ''a''] else
      if s = ''  '' then [''  ''] else [])"

lemma ex_chunks_cut: "\<forall>s\<in>set [''fix the bug'', ''re-use it'', '' a'', ''  '']. cuts_text ex_chunks s"
  by (simp add: cuts_text_def ex_chunks_def visible_def blank_def char_class_defs newline_def)

theorem format_list_to_str_keeps_text_witness:
  "\<exists>out. format_list_to_str ex_chunks [''fix the bug'', ''re-use it'', '' a'', ''  ''] 8 = Some (Inr out)
    \<and> visible out = ''*fixthebug*re-useit*a''"
proof -
  note k = format_list_to_str_keeps_text [OF _ ex_chunks_cut, of 8]
  show ?thesis using k by (simp add: visible_def char_class_defs)
qed

section \<open>The width\<close>

lemma split_join_nested:
  "ls \<noteq> [] \<Longrightarrow> split_on c (join_with [c] ls) = concat (map (split_on c) ls)"
proof (induction ls)
  case (Cons l ls)
  have app: "split_on c (u @ c # v) = split_on c u @ split_on c v" for u v
    by (induction u) (auto split: list.splits)
  from Cons show ?case by (cases "ls = []") (auto simp: join_with_Cons app)
qed simp

lemma fill_width:
  assumes "2 < width" "cuts_text chunks_of s"
  shows "\<exists>text. fill chunks_of ''* '' ''  '' width s = Some (Inr text)
    \<and> (\<forall>l\<in>set (split_on newline text). int (length l) \<le> width)"
proof -
  obtain lines where l: "wrap_chunks ''* '' ''  '' width False (chunks_of s) = Some lines"
    "\<forall>l\<in>set lines. int (length l) \<le> width"
    using wrap_chunks_width [of "''* ''" width "''  ''" False "chunks_of s"] assms(1) by auto
  moreover obtain lines' where "wrap_chunks ''* '' ''  '' width False (chunks_of s) = Some lines'"
    "\<forall>l\<in>set lines'. set l \<subseteq> set ''* '' \<union> set ''  '' \<union> set (concat (chunks_of s))"
    using wrap_chunks_chars [of False "''* ''" width "''  ''" "chunks_of s"] assms(1) by auto
  ultimately have free: "\<forall>l\<in>set lines. newline \<notin> set l"
    using assms(2) by (fastforce simp: cuts_text_def newline_def)
  have "\<forall>l\<in>set (split_on newline (join_with [newline] lines)). int (length l) \<le> width"
  proof (cases "lines = []")
    case False
    then show ?thesis using split_on_join [OF _ free] l(2) by simp
  qed (use assms(1) in simp)
  then show ?thesis using fill_lines [where chunks_of = chunks_of and s = s, OF _ l(1)] assms(1) by simp
qed

text \<open>C27: at a width above 2, the width of the star and a blank, formatting returns and no line of the
  result is longer than the width.\<close>

theorem format_list_to_str_width:
  assumes "2 < width" "\<forall>s\<in>set texts. cuts_text chunks_of s"
  shows "\<exists>out. format_list_to_str chunks_of texts width = Some (Inr out)
    \<and> (\<forall>l\<in>set (split_on newline out). int (length l) \<le> width)"
proof -
  define g where "g s = projr (the (fill chunks_of ''* '' ''  '' width s))" for s
  have g: "fill chunks_of ''* '' ''  '' width s = Some (Inr (g s))"
    "\<forall>l\<in>set (split_on newline (g s)). int (length l) \<le> width" if "s \<in> set texts" for s
    using fill_width [OF assms(1), of chunks_of s] that assms(2) by (auto simp: g_def)
  have "format_list_to_str chunks_of texts width = Some (Inr (join_with [newline] (map g texts)))"
    using each_total [of texts _ g] g(1) by (simp add: format_list_to_str_def)
  moreover have "\<forall>l\<in>set (split_on newline (join_with [newline] (map g texts))). int (length l) \<le> width"
    using g(2) assms(1) by (cases "texts = []") (auto simp: split_join_nested)
  ultimately show ?thesis by blast
qed

theorem format_list_to_str_width_witness:
  "\<exists>out. format_list_to_str ex_chunks [''fix the bug'', ''re-use it'', '' a'', ''  ''] 4 = Some (Inr out)
    \<and> (\<forall>l\<in>set (split_on newline out). length l \<le> 4)"
  using format_list_to_str_width [OF _ ex_chunks_cut, of 4] by auto

section \<open>When the loop ends\<close>

lemma negative_line:
  assumes "w < 0"
  shows "next_line w (c # cs) = ([take 1 c], drop 1 c # cs)"
proof -
  have "take_line w 0 (c # cs) = ([], 0, c # cs)" using assms by simp
  moreover have "long_word_end w 0 c = 1"
    using assms rfind_hyphen_less [of c 1] by (auto simp: long_word_end_def Let_def split: option.split)
  ultimately show ?thesis using assms by (simp add: next_line_def)
qed

text \<open>Without room beside the indentation, a first chunk of white space is taken apart until it is
  empty, and then the loop goes round forever.\<close>

lemma wrap_chunks_never:
  assumes "width < int (length ind1)" "chunks \<noteq> []" "blank (hd chunks)"
  shows "wrap_chunks ind1 ind2 width False chunks = None"
proof (rule ccontr)
  assume "wrap_chunks ind1 ind2 width False chunks \<noteq> None"
  then obtain lines where ret: "wrap_chunks ind1 ind2 width False chunks = Some lines" by blast
  have "\<not> (width < int (length ind1) \<and> \<not> False \<and> chunks \<noteq> [] \<and> blank (hd chunks))"
  proof (rule wrap_chunks.raw_induct [where P = "\<lambda>ind1 ind2 width s chunks lines.
      \<not> (width < int (length ind1) \<and> \<not> s \<and> chunks \<noteq> [] \<and> blank (hd chunks))", OF _ ret])
    fix f :: "string \<Rightarrow> string \<Rightarrow> int \<Rightarrow> bool \<Rightarrow> string list \<Rightarrow> string list option"
      and ind1 ind2 width s chunks lines
    assume IH: "\<And>ind1 ind2 width s chunks lines. f ind1 ind2 width s chunks = Some lines \<Longrightarrow>
        \<not> (width < int (length ind1) \<and> \<not> s \<and> chunks \<noteq> [] \<and> blank (hd chunks))"
      and eq: "(if chunks = [] then Some []
        else let indent = if s then ind2 else ind1;
                (line, rest) = next_line (width - int (length indent)) (skip_blank s chunks);
                line' = drop_last_blank line
             in if line' \<noteq> []
                then Option.bind (f ind1 ind2 width True rest) (\<lambda>lines. Some ((indent @ concat line') # lines))
                else f ind1 ind2 width s rest) = Some lines"
    show "\<not> (width < int (length ind1) \<and> \<not> s \<and> chunks \<noteq> [] \<and> blank (hd chunks))"
    proof
      assume a: "width < int (length ind1) \<and> \<not> s \<and> chunks \<noteq> [] \<and> blank (hd chunks)"
      then obtain c cs where c: "chunks = c # cs" "blank c" by (cases chunks) auto
      have b: "blank (take 1 c)" "blank (drop 1 c)" using c(2) by (cases c; simp add: blank_def)+
      have "f ind1 ind2 width False (drop 1 c # cs) = Some lines"
        using eq a c b(1) by (simp add: skip_blank_def negative_line drop_last_blank_def)
      from IH [OF this] show False using a b(2) by simp
    qed
  qed
  then show False using assms by simp
qed

lemma wrap_chunks_visible_start:
  assumes "width < int (length ind1)" "c \<noteq> []" "\<not> is_space (hd c)"
  shows "\<exists>lines. wrap_chunks ind1 ind2 width False (c # cs) = Some lines"
proof -
  have "\<not> blank (take 1 c)" using assms(2,3) by (cases c) (simp_all add: blank_def)
  then show ?thesis
    using assms(1) wrap_chunks_induct [of True ind1 width "\<lambda>_ _ _. True" ind2 "drop 1 c # cs"]
    by (subst wrap_chunks.simps) (auto simp: skip_blank_def negative_line drop_last_blank_def)
qed

lemma fill_one:
  assumes "cuts_text chunks_of s" "width = 1"
  shows "fill chunks_of ''* '' ''  '' width s = None \<longleftrightarrow> chunks_of s \<noteq> [] \<and> blank (hd (chunks_of s))"
proof (cases "chunks_of s")
  case (Cons c cs)
  then have "blank c \<or> c \<noteq> [] \<and> \<not> is_space (hd c)" using assms(1) by (simp add: cuts_text_def)
  then show ?thesis
    using Cons assms(2) wrap_chunks_never [of 1 "''* ''" "c # cs" "''  ''"]
      wrap_chunks_visible_start [of 1 "''* ''" c "''  ''" cs]
    by (auto simp: fill_def wrap_def blank_def)
qed (use assms(2) in \<open>simp add: fill_def wrap_def wrap_chunks.simps\<close>)

lemma each_None_iff:
  "(\<And>x e. x \<in> set xs \<Longrightarrow> f x \<noteq> Some (Inl e)) \<Longrightarrow> each f xs = None \<longleftrightarrow> (\<exists>x\<in>set xs. f x = None)"
  by (induction xs) (auto split: option.splits sum.splits)

text \<open>C28: when formatting a list ends. At a width of zero or less it raises \<open>ValueError\<close>, unless the list
  is empty; at a width above 1 it always returns; at width 1, where the star and the blank leave no room,
  it never ends exactly when one of the texts begins with white space.\<close>

theorem format_list_to_str_ends:
  assumes "\<forall>s\<in>set texts. cuts_text chunks_of s"
  shows "(width \<le> 0 \<longrightarrow> format_list_to_str chunks_of texts width =
            (if texts = [] then Some (Inr []) else Some (Inl (ValueError ''invalid width''))))
    \<and> (width = 1 \<longrightarrow> (format_list_to_str chunks_of texts width = None \<longleftrightarrow>
            (\<exists>s\<in>set texts. chunks_of s \<noteq> [] \<and> blank (hd (chunks_of s)))))
    \<and> (1 < width \<longrightarrow> (\<exists>out. format_list_to_str chunks_of texts width = Some (Inr out)))"
proof (intro conjI impI)
  show "format_list_to_str chunks_of texts width =
      (if texts = [] then Some (Inr []) else Some (Inl (ValueError ''invalid width'')))" if "width \<le> 0"
    using that by (cases texts) (simp_all add: format_list_to_str_def fill_def wrap_def)
  show "format_list_to_str chunks_of texts width = None \<longleftrightarrow>
      (\<exists>s\<in>set texts. chunks_of s \<noteq> [] \<and> blank (hd (chunks_of s)))" if "width = 1"
  proof -
    have "each (fill chunks_of ''* '' ''  '' width) texts = None \<longleftrightarrow>
        (\<exists>s\<in>set texts. fill chunks_of ''* '' ''  '' width s = None)"
      using that by (intro each_None_iff) (auto simp: fill_def wrap_def)
    then show ?thesis using fill_one [of chunks_of _ width] assms that by (auto simp: format_list_to_str_def)
  qed
  show "\<exists>out. format_list_to_str chunks_of texts width = Some (Inr out)" if "1 < width"
    using format_list_to_str_returns [OF that] .
qed

theorem format_list_to_str_ends_witness:
  "format_list_to_str ex_chunks [''fix the bug'', ''re-use it'', '' a'', ''  ''] 1 = None
    \<and> format_list_to_str ex_chunks [''fix the bug'', ''re-use it'', '' a'', ''  ''] 0 = Some (Inl (ValueError ''invalid width''))
    \<and> (\<exists>out. format_list_to_str ex_chunks [''fix the bug'', ''re-use it'', '' a'', ''  ''] 2 = Some (Inr out))"
  using format_list_to_str_ends [OF ex_chunks_cut, of 1] format_list_to_str_ends [OF ex_chunks_cut, of 0]
    format_list_to_str_ends [OF ex_chunks_cut, of 2]
  by (simp add: ex_chunks_def blank_def char_class_defs)

end
