(* ===== verification/VmemMif.thy ===== *)
theory VmemMif
  imports Scan PyNum World
begin

text \<open>
  \<open>sw/vmem_to_mif.py\<close>: reading a VMEM memory image (hexadecimal words, at addresses that an at sign
  introduces) and writing it as an Altera MIF file.
\<close>

section \<open>Reading\<close>

text \<open>The expression \<open>/\*.*?\*/\<close>: from a comment's opening to the first closing after it.\<close>

fun after_close :: "string \<Rightarrow> string option" where
  "after_close [] = None"
| "after_close (c # s) =
     (case strip_prefix ''*/'' (c # s) of Some r \<Rightarrow> Some r | None \<Rightarrow> after_close s)"

definition comment_match :: "unit matcher" where
  "comment_match st s =
     (case strip_prefix ''/*'' s of
        None \<Rightarrow> None
      | Some r \<Rightarrow> (case after_close r of None \<Rightarrow> None | Some r' \<Rightarrow> Some ((), r')))"

definition strip_comments :: "string \<Rightarrow> string" where
  "strip_comments content = re_sub (\<lambda>_. []) comment_match content"

text \<open>\<open>TOKEN_RE\<close>: an address, or a word of at most eight digits.\<close>

datatype token = Addr string | Word string

definition token_match :: "token matcher" where
  "token_match st s =
     (case s of
        [] \<Rightarrow> None
      | c # r \<Rightarrow>
          if c = CHR ''@'' \<and> takeWhile is_hex r \<noteq> []
          then Some (Addr (takeWhile is_hex r), dropWhile is_hex r)
          else let h = take 8 (takeWhile is_hex s)
               in if h \<noteq> [] then Some (Word h, drop (length h) s) else None)"

text \<open>The loop over the tokens: the words so far and the address of the next one.\<close>

fun store_tokens :: "(nat, nat) dict \<Rightarrow> nat \<Rightarrow> token list \<Rightarrow> (nat, nat) dict" where
  "store_tokens words address [] = words"
| "store_tokens words address (Addr a # toks) = store_tokens words (int16 a) toks"
| "store_tokens words address (Word h # toks) =
     store_tokens (dict_set address (int16 h) words) (address + 1) toks"

definition parse_vmem :: "string \<Rightarrow> (nat, nat) dict" where
  "parse_vmem content = store_tokens [] 0 (finditer token_match (strip_comments content))"

section \<open>Writing\<close>

definition DEFAULT_DEPTH :: nat where
  "DEFAULT_DEPTH = 128 * 1024 div 4"

definition address_width :: "nat \<Rightarrow> nat" where
  "address_width depth =
     max 1 (bit_length (depth - 1) div 4 + (if bit_length (depth - 1) mod 4 \<noteq> 0 then 1 else 0))"

definition mif_line :: "nat \<Rightarrow> (nat, nat) dict \<Rightarrow> nat \<Rightarrow> string" where
  "mif_line width words address =
     ''    '' @ hex_pad width address @ '' : ''
       @ hex_pad 8 (case dict_get words address of None \<Rightarrow> 0 | Some v \<Rightarrow> v) @ '';'' @ [newline]"

definition mif_header :: "nat \<Rightarrow> string" where
  "mif_header depth =
     ''WIDTH=32;'' @ [newline] @ ''DEPTH='' @ dec_str depth @ '';'' @ [newline]
       @ ''ADDRESS_RADIX=HEX;'' @ [newline] @ ''DATA_RADIX=HEX;'' @ [newline, newline]
       @ ''CONTENT BEGIN'' @ [newline]"

definition mif_text :: "(nat, nat) dict \<Rightarrow> nat \<Rightarrow> string" where
  "mif_text words depth =
     mif_header depth @ concat (map (mif_line (address_width depth) words) [0..<depth])
       @ ''END;'' @ [newline]"

definition write_mif :: "path \<Rightarrow> (nat, nat) dict \<Rightarrow> nat \<Rightarrow> unit io" where
  "write_mif p words depth =
     (if list_ex (\<lambda>address. address \<ge> depth) (dict_keys words)
      then raise (ValueError ''VMEM address exceeds configured MIF depth'')
      else write_file p (mif_text words depth))"

section \<open>The program\<close>

text \<open>The arguments after parsing, which turns the depth into a number.\<close>

record mif_args =
  m_input :: path
  m_output :: "path option"
  m_depth :: int

definition convert :: "mif_args \<Rightarrow> unit io" where
  "convert args =
     (if m_depth args \<le> 0 then raise (SystemExit 2)
      else
        bind (case m_output args of
                Some p \<Rightarrow> ret p
              | None \<Rightarrow> lift (with_suffix (m_input args) ''.mif'')) (\<lambda>out.
        bind (read_file (m_input args)) (\<lambda>content.
        write_mif out (parse_vmem content) (nat (m_depth args)))))"

section \<open>The matching functions\<close>

lemma after_close_Some: "after_close s = Some r \<Longrightarrow> \<exists>w. s = w @ ''*/'' @ r"
proof (induction s)
  case (Cons c s)
  show ?case
  proof (cases "strip_prefix ''*/'' (c # s)")
    case None
    then obtain w where "s = w @ ''*/'' @ r" using Cons by auto
    then show ?thesis by (intro exI [of _ "c # w"]) simp
  next
    case (Some r')
    then have "c # s = ''*/'' @ r" using Cons.prems strip_prefix_SomeD by fastforce
    then show ?thesis by (intro exI [of _ "[]"]) simp
  qed
qed simp

interpretation comment: matcher comment_match
proof unfold_locales
  fix st s x rest
  assume "comment_match st s = Some (x, rest)"
  then obtain r where "strip_prefix ''/*'' s = Some r" "after_close r = Some rest"
    by (auto simp: comment_match_def split: option.splits)
  then show "\<exists>w. w \<noteq> [] \<and> s = w @ rest"
    using after_close_Some [of r rest] strip_prefix_SomeD [of "''/*''" s r] by auto
qed

lemma digits_drop: "s = take k (takeWhile P s) @ drop (length (take k (takeWhile P s))) s"
proof -
  have "s = take k (takeWhile P s) @ (drop k (takeWhile P s) @ dropWhile P s)"
    by (metis append_assoc append_take_drop_id takeWhile_dropWhile_id)
  then show ?thesis by (metis append_eq_conv_conj)
qed

interpretation token: matcher token_match
proof unfold_locales
  fix st s x rest
  assume m: "token_match st s = Some (x, rest)"
  then obtain c r where s: "s = c # r" by (cases s) (auto simp: token_match_def)
  show "\<exists>w. w \<noteq> [] \<and> s = w @ rest"
  proof (cases "c = CHR ''@'' \<and> takeWhile is_hex r \<noteq> []")
    case True
    then have "rest = dropWhile is_hex r" using m by (simp add: s token_match_def)
    then have "s = (c # takeWhile is_hex r) @ rest" using s by simp
    then show ?thesis by blast
  next
    case False
    let ?h = "take 8 (takeWhile is_hex s)"
    have "?h \<noteq> []" "rest = drop (length ?h) s"
      using m False by (auto simp: s token_match_def Let_def split: if_splits)
    moreover have "s = ?h @ drop (length ?h) s" by (rule digits_drop)
    ultimately show ?thesis by metis
  qed
qed

end
