(* ===== verification/VmemProps.thy ===== *)
theory VmemProps
  imports VmemMif WorldFacts
begin

text \<open>
  Properties of \<open>sw/vmem_to_mif.py\<close>: what the parser reads, what the MIF file says, and that a failing
  conversion leaves every file alone.
\<close>

section \<open>Tokens\<close>

fun token_ok :: "token \<Rightarrow> bool" where
  "token_ok (Addr a) \<longleftrightarrow> a \<noteq> [] \<and> list_all is_hex a"
| "token_ok (Word h) \<longleftrightarrow> h \<noteq> [] \<and> length h \<le> 8 \<and> list_all is_hex h"

lemma list_all_takeWhile: "list_all P (takeWhile P xs)"
  by (induction xs) auto

lemma list_all_take: "list_all P xs \<Longrightarrow> list_all P (take k xs)"
  by (auto simp: list_all_iff dest: in_set_takeD)

lemma token_match_ok: "token_match st s = Some (x, rest) \<Longrightarrow> token_ok x"
  by (auto simp: token_match_def Let_def list_all_takeWhile list_all_take
      split: list.splits if_splits)

lemma finditer_ok: "x \<in> set (finditer token_match s) \<Longrightarrow> token_ok x"
proof -
  assume x: "x \<in> set (finditer token_match s)"
  obtain ps where ps: "scan token_match True s = map fst ps"
    "\<forall>(i, w) \<in> set ps. case i of Inr c \<Rightarrow> w = [c]
        | Inl x \<Rightarrow> w \<noteq> [] \<and> (\<exists>b rest. token_match b (w @ rest) = Some (x, rest))"
    using token.scan_pieces [of s True] by blast
  then show ?thesis using x token_match_ok
    by (fastforce simp: finditer_def split: sum.splits)
qed

lemma store_tokens_bounds:
  "list_all token_ok toks \<Longrightarrow> list_all (\<lambda>(a, v). v < 2 ^ 32) d \<Longrightarrow>
     list_all (\<lambda>(a, v). v < 2 ^ 32) (store_tokens d n toks)"
proof (induction d n toks rule: store_tokens.induct)
  case (3 words address h toks)
  have "int16 h < 16 ^ length h" using 3(2) by (intro int16_bound) (simp add: list_all_iff)
  also have "(16::nat) ^ length h \<le> 16 ^ 8" using 3(2) by (intro power_increasing) auto
  finally have v: "int16 h < 2 ^ 32" by simp
  have "list_all (\<lambda>(a, v). v < 2 ^ 32) (dict_set k v words)" if "v < 2 ^ 32" for k v :: nat
    using that 3(3) by (induction words) auto
  with 3 v show ?case by simp
qed auto

lemma store_tokens_keys: "distinct (dict_keys d) \<Longrightarrow> distinct (dict_keys (store_tokens d n toks))"
  by (induction d n toks rule: store_tokens.induct) (auto simp: pyd.distinct_keys_put)

text \<open>C29: whatever the file holds, every word that is read fits in 32 bits and no address has two
  words.\<close>

theorem parse_vmem_words:
  "list_all (\<lambda>(address, value). value < 2 ^ 32) (parse_vmem content) \<and>
     distinct (dict_keys (parse_vmem content))"
proof
  have "list_all token_ok (finditer token_match (strip_comments content))"
    by (simp add: list_all_iff finditer_ok)
  then show "list_all (\<lambda>(address, value). value < 2 ^ 32) (parse_vmem content)"
    unfolding parse_vmem_def by (rule store_tokens_bounds) simp
  show "distinct (dict_keys (parse_vmem content))"
    unfolding parse_vmem_def by (rule store_tokens_keys) (simp add: dict_keys_def)
qed

section \<open>Reading back an image\<close>

definition toks :: "string \<Rightarrow> token list" where
  "toks s = finditer token_match s"

lemma scan_token_start: "scan token_match st s = scan token_match True s"
  by (subst (1 2) scan.simps) (simp add: token_match_def)

lemma toks_simps:
  "toks [] = []"
  "c \<noteq> CHR ''@'' \<Longrightarrow> \<not> is_hex c \<Longrightarrow> toks (c # r) = toks r"
  by (simp_all add: toks_def finditer_def token.scan_Nil token.scan_skip token_match_def
      scan_token_start [of False])

lemma hex_run:
  "list_all is_hex d \<Longrightarrow> r = [] \<or> \<not> is_hex (hd r) \<Longrightarrow>
     takeWhile is_hex (d @ r) = d \<and> dropWhile is_hex (d @ r) = r"
  by (cases r) (auto simp: takeWhile_append_stop dropWhile_append_stop list_all_iff)

lemma toks_addr:
  assumes "d \<noteq> []" "list_all is_hex d" "r = [] \<or> \<not> is_hex (hd r)"
  shows "toks (''@'' @ d @ r) = Addr d # toks r"
proof -
  have "token_match True (''@'' @ d @ r) = Some (Addr d, r)"
    using hex_run [OF assms(2,3)] assms(1) by (simp add: token_match_def)
  from token.scan_match [OF this] show ?thesis
    by (simp add: toks_def finditer_def scan_token_start [of False])
qed

lemma not_hex_at: "\<not> is_hex (CHR ''@'')"
  by (simp add: is_hex_def char_class_defs)

lemma toks_word:
  assumes "h \<noteq> []" "list_all is_hex h" "length h = 8 \<or> length h < 8 \<and> (r = [] \<or> \<not> is_hex (hd r))"
  shows "toks (h @ r) = Word h # toks r"
proof -
  obtain c t where h: "h = c # t" using assms(1) by (cases h) auto
  then have c: "c \<noteq> CHR ''@''" using assms(2) not_hex_at by auto
  have tw: "takeWhile is_hex (h @ r) = h @ takeWhile is_hex r"
    using assms(2) by (simp add: list_all_iff takeWhile_append2)
  have "take 8 (takeWhile is_hex (h @ r)) = h"
  proof (cases "length h = 8")
    case False
    then have "takeWhile is_hex r = []" using assms(3) by (auto simp: takeWhile_eq_Nil_iff)
    then show ?thesis using assms(3) False by (simp add: tw)
  qed (simp add: tw)
  then have "token_match True (h @ r) = Some (Word h, r)"
    using c assms(1) by (simp add: token_match_def Let_def h)
  from token.scan_match [OF this] show ?thesis
    by (simp add: toks_def finditer_def scan_token_start [of False])
qed

text \<open>An image as \<open>srec_cat\<close> writes it: a comment, then lines of an address and the words from it on.\<close>

definition vmem_line :: "nat \<times> nat list \<Rightarrow> string" where
  "vmem_line l = (case l of (a, ws) \<Rightarrow>
     ''@'' @ hex_pad 8 a @ concat (map (\<lambda>w. '' '' @ hex_pad 8 w) ws) @ [newline])"

definition vmem_text :: "string \<Rightarrow> (nat \<times> nat list) list \<Rightarrow> string" where
  "vmem_text comment ls = ''/*'' @ comment @ ''*/'' @ [newline] @ concat (map vmem_line ls)"

definition vmem_words :: "nat \<times> nat list \<Rightarrow> (nat \<times> nat) list" where
  "vmem_words l = (case l of (a, ws) \<Rightarrow> zip [a..<a + length ws] ws)"

lemma hex_pad_hex: "list_all is_hex (hex_pad w n)"
  by (auto simp: list_all_iff dest: hex_pad_digits)

lemma hex_pad_ne [simp]: "hex_pad w n \<noteq> []"
  by (simp add: hex_pad_def zero_pad_def hex_str_def)

lemma not_hex_blank: "\<not> is_hex (CHR '' '')" "\<not> is_hex newline" "newline \<noteq> CHR ''@''"
  by (simp_all add: is_hex_def char_class_defs newline_def)

lemma toks_words:
  "list_all (\<lambda>w. w < 2 ^ 32) ws \<Longrightarrow>
     toks (concat (map (\<lambda>w. '' '' @ hex_pad 8 w) ws) @ newline # r) = map (\<lambda>w. Word (hex_pad 8 w)) ws @ toks r"
proof (induction ws)
  case (Cons w ws)
  then have "length (hex_pad 8 w) = 8" by (intro length_hex_pad) simp_all
  then show ?case using Cons
    by (simp add: toks_simps not_hex_blank toks_word hex_pad_hex)
qed (simp add: toks_simps not_hex_blank)

lemma toks_line:
  assumes "list_all (\<lambda>w. w < 2 ^ 32) ws"
  shows "toks (vmem_line (a, ws) @ r) = Addr (hex_pad 8 a) # map (\<lambda>w. Word (hex_pad 8 w)) ws @ toks r"
proof -
  let ?t = "concat (map (\<lambda>w. '' '' @ hex_pad 8 w) ws) @ newline # r"
  have "?t = [] \<or> \<not> is_hex (hd ?t)" by (cases ws) (simp_all add: not_hex_blank)
  then show ?thesis
    using toks_addr [of "hex_pad 8 a" ?t] toks_words [OF assms, of r] hex_pad_hex
    by (simp add: vmem_line_def)
qed

lemma store_words:
  "store_tokens d n (map (\<lambda>w. Word (hex_pad 8 w)) ws @ ts) =
     store_tokens (fold (\<lambda>(a, w). dict_set a w) (zip [n..<n + length ws] ws) d) (n + length ws) ts"
proof (induction ws arbitrary: d n)
  case (Cons w ws)
  have "[n..<n + length (w # ws)] = n # [Suc n..<Suc n + length ws]" by (simp add: upt_rec)
  then show ?case using Cons.IH [of "dict_set n w d" "Suc n"] by simp
qed simp

lemma store_lines:
  "list_all (\<lambda>(a, ws). list_all (\<lambda>w. w < 2 ^ 32) ws) ls \<Longrightarrow>
     store_tokens d n (toks (concat (map vmem_line ls))) =
       fold (\<lambda>(a, w). dict_set a w) (concat (map vmem_words ls)) d"
proof (induction ls arbitrary: d n)
  case (Cons l ls)
  obtain a ws where l: "l = (a, ws)" by (cases l)
  show ?case using Cons
    by (simp add: l toks_line store_words vmem_words_def)
qed (simp add: toks_simps)

lemma strip_comments_free: "CHR ''/'' \<notin> set s \<Longrightarrow> scan comment_match st s = map Inr s"
proof -
  assume s: "CHR ''/'' \<notin> set s"
  have "comment_match b t = None" if "s = a @ t" "t \<noteq> []" for a b t
    using that s by (cases t) (auto simp: comment_match_def)
  then show ?thesis using comment.scan_skip_all [of s st "[]"] by (simp add: comment.scan_Nil)
qed

lemma after_close_first: "CHR ''*'' \<notin> set c \<Longrightarrow> after_close (c @ ''*/'' @ r) = Some r"
  by (induction c) auto

lemma strip_one_comment:
  assumes "CHR ''*'' \<notin> set c" "CHR ''/'' \<notin> set s"
  shows "strip_comments (''/*'' @ c @ ''*/'' @ s) = s"
proof -
  have "comment_match True (''/*'' @ c @ ''*/'' @ s) = Some ((), s)"
    using after_close_first [OF assms(1), of s] by (simp add: comment_match_def)
  from comment.scan_match [OF this] show ?thesis
    using strip_comments_free [OF assms(2)] by (simp add: strip_comments_def re_sub_def comp_def)
qed

lemma hex_not_slash: "is_hex c \<Longrightarrow> c \<noteq> CHR ''/''"
  by (auto simp: is_hex_def char_class_defs)

lemma vmem_line_no_slash: "CHR ''/'' \<notin> set (vmem_line l)"
  using hex_pad_digits hex_not_slash by (cases l) (auto simp: vmem_line_def newline_def)

text \<open>C13: an image that lists words from given addresses on, after a comment, is read back exactly:
  each address holds the word that was listed for it last.\<close>

theorem parse_vmem_text:
  assumes "list_all (\<lambda>(a, ws). list_all (\<lambda>w. w < 2 ^ 32) ws) ls" "CHR ''*'' \<notin> set comment"
  shows "dict_get (parse_vmem (vmem_text comment ls)) = map_of (rev (concat (map vmem_words ls)))"
proof -
  let ?b = "newline # concat (map vmem_line ls)"
  have "CHR ''/'' \<notin> set ?b" using vmem_line_no_slash by (auto simp: newline_def)
  then have "strip_comments (vmem_text comment ls) = ?b"
    using strip_one_comment [OF assms(2), of ?b] by (simp add: vmem_text_def)
  moreover have "toks ?b = toks (concat (map vmem_line ls))"
    by (rule toks_simps(2)) (simp_all add: not_hex_blank)
  ultimately have "parse_vmem (vmem_text comment ls) =
      fold (\<lambda>(a, w). dict_set a w) (concat (map vmem_words ls)) []"
    using store_lines [OF assms(1), of "[]" 0] by (simp add: parse_vmem_def toks_def)
  then show ?thesis by (simp add: pyd.lookup_put_all pyd.lookup_emp)
qed

theorem parse_vmem_text_witness:
  "dict_get (parse_vmem (vmem_text '' made by srec_cat '' [(0, [19, 4294967295]), (1, [7])])) 1 = Some 7"
  using parse_vmem_text [of "[(0, [19, 4294967295]), (1, [7])]" "'' made by srec_cat ''"]
  by (simp add: vmem_words_def upt_rec)

section \<open>The MIF file\<close>

text \<open>Every address below the depth fits in the width.\<close>

lemma address_width_fits: "i < depth \<Longrightarrow> i < 16 ^ address_width depth"
proof -
  assume i: "i < depth"
  let ?b = "bit_length (depth - 1)"
  have "i < 2 ^ ?b" using bit_length_bound [of "depth - 1"] i by simp
  also have "?b \<le> 4 * address_width depth"
    unfolding address_width_def by (cases "?b mod 4 = 0") (simp_all add: max_def, presburger+)
  then have "(2::nat) ^ ?b \<le> 2 ^ (4 * address_width depth)" by (intro power_increasing) simp_all
  also have "(2::nat) ^ (4 * address_width depth) = 16 ^ address_width depth" by (simp add: power_mult)
  finally show ?thesis .
qed

lemma address_width_pos: "0 < address_width depth"
  by (simp add: address_width_def)

lemma ceil_quarter: "b div 4 + (if b mod 4 \<noteq> 0 then 1 else 0) \<le> k" if "b \<le> 4 * k" for b k :: nat
  using that by (cases "b mod 4 = 0") (simp, presburger)+

text \<open>C20: the address width, computed by whole digits from the bit length, is the number of digits of
  the largest address: no address is cut, and no narrower width would do for all of them.\<close>

theorem address_width_digits: "address_width depth = length (hex_str (depth - 1))"
proof (rule antisym)
  let ?n = "depth - 1" and ?b = "bit_length (depth - 1)"
  let ?k = "length (hex_str ?n)"
  have "0 < ?k" by (simp add: hex_str_def)
  then have "?n < 16 ^ ?k" using length_nat_digits_le [of 16 ?k ?n] by (simp add: hex_str_def)
  also have "(16::nat) ^ ?k = 2 ^ (4 * ?k)" by (simp add: power_mult)
  finally have "?b \<le> 4 * ?k" by (rule bit_length_le)
  then show "address_width depth \<le> ?k"
    unfolding address_width_def by (intro max.boundedI ceil_quarter Suc_leI [OF \<open>0 < ?k\<close>, folded One_nat_def])
  have "?n < 16 ^ address_width depth"
    using address_width_fits [of ?n depth] by (cases "depth = 0") simp_all
  then show "?k \<le> address_width depth"
    using length_nat_digits_le [of 16 "address_width depth" ?n] address_width_pos
    by (simp add: hex_str_def)
qed

text \<open>Lines that end in newlines are the pieces of the text.\<close>

lemma split_lines:
  "\<forall>l\<in>set ls. newline \<notin> set l \<Longrightarrow>
     split_on newline (concat (map (\<lambda>l. l @ [newline]) ls) @ r) = ls @ split_on newline r"
  by (induction ls) (simp_all add: split_on_append_sep)

definition mif_entry :: "nat \<Rightarrow> (nat, nat) dict \<Rightarrow> nat \<Rightarrow> string" where
  "mif_entry width words i =
     ''    '' @ hex_pad width i @ '' : ''
       @ hex_pad 8 (case dict_get words i of None \<Rightarrow> 0 | Some v \<Rightarrow> v) @ '';''"

lemma hex_no_newline: "newline \<notin> set (hex_pad w n)"
  using hex_pad_digits not_hex_blank(2) by blast

lemma mif_entry_no_newline: "newline \<notin> set (mif_entry w words i)"
  using hex_no_newline by (simp add: mif_entry_def) (simp add: newline_def)

lemma dec_digits: "newline \<notin> set (dec_str n)"
proof
  assume "newline \<in> set (dec_str n)"
  then obtain d where d: "d < 10" "newline = digit_char d"
    by (auto simp: dec_str_def dest: nat_digits_bound [rotated])
  then have "newline = char_of (48 + d)" by (simp add: digit_char_def)
  then have "code newline = 48 + d" using code_char_of [of "48 + d"] d(1) by (simp del: code_char_of)
  then show False by (simp add: newline_def code_def)
qed

definition mif_lines :: "(nat, nat) dict \<Rightarrow> nat \<Rightarrow> string list" where
  "mif_lines words depth =
     [''WIDTH=32;'', ''DEPTH='' @ dec_str depth @ '';'', ''ADDRESS_RADIX=HEX;'', ''DATA_RADIX=HEX;'', [],
      ''CONTENT BEGIN''] @ map (mif_entry (address_width depth) words) [0..<depth] @ [''END;'']"

lemma mif_text_lines: "mif_text words depth = concat (map (\<lambda>l. l @ [newline]) (mif_lines words depth))"
  by (simp add: mif_text_def mif_header_def mif_lines_def mif_line_def [abs_def] mif_entry_def comp_def)

text \<open>C14: the MIF file says what was read: after the header it has one line for each address below the
  depth, in order, whose two numbers, all of the same length, read back as the address and its
  word (zero where there is none).\<close>

theorem mif_text_reads_back:
  assumes "list_all (\<lambda>(address, value). value < 2 ^ 32) words"
  shows "\<exists>ls. split_on newline (mif_text words depth) =
      [''WIDTH=32;'', ''DEPTH='' @ dec_str depth @ '';'', ''ADDRESS_RADIX=HEX;'', ''DATA_RADIX=HEX;'', [],
       ''CONTENT BEGIN''] @ ls @ [''END;'', []]
    \<and> length ls = depth
    \<and> (\<forall>i<depth. \<exists>a v. ls ! i = ''    '' @ a @ '' : '' @ v @ '';''
         \<and> length a = address_width depth \<and> length v = 8 \<and> list_all is_hex (a @ v)
         \<and> int16 a = i \<and> int16 v = (case dict_get words i of None \<Rightarrow> 0 | Some x \<Rightarrow> x))"
proof -
  let ?w = "address_width depth" and ?v = "\<lambda>i. case dict_get words i of None \<Rightarrow> 0 | Some x \<Rightarrow> x"
  let ?ls = "map (mif_entry ?w words) [0..<depth]"
  have nl: "\<forall>l\<in>set (mif_lines words depth). newline \<notin> set l"
    using mif_entry_no_newline dec_digits by (auto simp: mif_lines_def) (simp_all add: newline_def)
  have "split_on newline (mif_text words depth) = mif_lines words depth @ [[]]"
    unfolding mif_text_lines using split_lines [OF nl, of "[]"] by simp
  then have 1: "split_on newline (mif_text words depth) =
      [''WIDTH=32;'', ''DEPTH='' @ dec_str depth @ '';'', ''ADDRESS_RADIX=HEX;'', ''DATA_RADIX=HEX;'', [],
       ''CONTENT BEGIN''] @ ?ls @ [''END;'', []]"
    by (simp add: mif_lines_def)
  have "?v i < 16 ^ 8" for i
    using assms by (auto simp: list_all_iff dict_get_def split: option.splits dest!: map_of_SomeD)
  then have v: "length (hex_pad 8 (?v i)) = 8" for i by (intro length_hex_pad) simp_all
  have a: "length (hex_pad ?w i) = ?w" if "i < depth" for i
    using length_hex_pad [OF address_width_pos address_width_fits [OF that]] .
  have "\<exists>a v. ?ls ! i = ''    '' @ a @ '' : '' @ v @ '';''
      \<and> length a = ?w \<and> length v = 8 \<and> list_all is_hex (a @ v) \<and> int16 a = i \<and> int16 v = ?v i"
    if "i < depth" for i
    using a [OF that] v [of i] that
    by (intro exI [of _ "hex_pad ?w i"] exI [of _ "hex_pad 8 (?v i)"])
      (simp add: mif_entry_def hex_pad_hex)
  then show ?thesis using 1 by (intro exI [of _ ?ls]) simp
qed

theorem mif_text_reads_back_witness:
  "length (split_on newline (mif_text [(1, 255)] 17)) = 25"
  using mif_text_reads_back [of "[(1, 255)]" 17] by auto

section \<open>The program\<close>

lemma write_file_unchanged: "write_file p s w = (Inl e, w') \<Longrightarrow> w' = w"
  by (auto simp: write_file_def put_file_def split: sum.splits option.splits if_splits)

lemma write_file_Inr:
  "write_file p s w = (Inr x, w') \<Longrightarrow>
     \<exists>l. trace w' = trace w @ [WriteFile l s] \<and> node_at l (tree w') = Some (File s)"
  by (auto simp: write_file_def put_file_def fs.get_put_same split: sum.splits option.splits if_splits)

lemma read_file_unchanged: "read_file p w = (r, w') \<Longrightarrow> w' = w"
  by (auto simp: read_file_def split: sum.splits option.splits node.splits)

text \<open>C19: a conversion that fails, for whatever reason (the depth, a word beyond it, the input, the
  output), has changed nothing; one that succeeds has written one file, the MIF text of the
  words in the input, all of which lie below the depth.\<close>

theorem convert_all_or_nothing:
  "case convert args w of
     (Inl e, w') \<Rightarrow> w' = w
   | (Inr x, w') \<Rightarrow> \<exists>content l. read_file (m_input args) w = (Inr content, w)
       \<and> list_all (\<lambda>(address, value). address < nat (m_depth args)) (parse_vmem content)
       \<and> trace w' = trace w @ [WriteFile l (mif_text (parse_vmem content) (nat (m_depth args)))]
       \<and> node_at l (tree w') = Some (File (mif_text (parse_vmem content) (nat (m_depth args))))"
proof -
  obtain r w' where r: "convert args w = (r, w')" by fastforce
  have out: "(case m_output args of Some p \<Rightarrow> ret p | None \<Rightarrow> lift (with_suffix (m_input args) ''.mif'')) v
      = (case m_output args of Some p \<Rightarrow> Inr p | None \<Rightarrow> with_suffix (m_input args) ''.mif'', v)" for v
    by (simp add: io_simps split: option.splits)
  show ?thesis
  proof (cases r)
    case (Inl e)
    have "w' = w"
      using r unfolding Inl convert_def
      by (auto simp: bind_Inl_iff out raise_def write_mif_def split: if_splits
          dest: write_file_unchanged read_file_unchanged)
    then show ?thesis using r Inl by simp
  next
    case (Inr x)
    obtain p content where c: "read_file (m_input args) w = (Inr content, w)"
      "write_mif p (parse_vmem content) (nat (m_depth args)) w = (Inr x, w')"
      using r unfolding Inr convert_def
      by (auto simp: bind_Inr_iff out raise_def split: if_splits dest: read_file_unchanged)
    then have b: "list_all (\<lambda>(a, v). a < nat (m_depth args)) (parse_vmem content)"
      by (auto simp: write_mif_def list_ex_iff list_all_iff dict_keys_def raise_def split: if_splits)
    have "write_file p (mif_text (parse_vmem content) (nat (m_depth args))) w = (Inr x, w')"
      using c(2) by (simp add: write_mif_def raise_def split: if_splits)
    from write_file_Inr [OF this] show ?thesis using r Inr c(1) b by auto
  qed
qed

text \<open>C39: line comments are not comments: the letters of a text after two slashes that are hexadecimal
  digits are read as words.\<close>

theorem line_comment_is_data:
  assumes "h \<noteq> []" "list_all is_hex h" "length h \<le> 8"
  shows "parse_vmem (''// '' @ h) = [(0, int16 h)]"
proof -
  have "CHR ''*'' \<notin> set h" using assms(2) by (auto simp: list_all_iff is_hex_def char_class_defs)
  then have no: "comment_match b t = None" if "''// '' @ h = a @ t" "t \<noteq> []" for a b t
    using that by (auto simp: comment_match_def Cons_eq_append_conv split: option.splits
        dest!: strip_prefix_SomeD)
  have "strip_comments (''// '' @ h) = ''// '' @ h"
    using comment.scan_skip_all [of "''// '' @ h" True "[]"] no
    by (simp add: comment.scan_Nil strip_comments_def re_sub_def comp_def)
  moreover have "toks (''// '' @ h) = [Word h]"
    using toks_word [OF assms(1,2), of "[]"] assms(3)
      toks_simps(2) [of "CHR ''/''"] toks_simps(2) [of "CHR '' ''"]
    by (simp add: toks_simps(1) not_hex_blank le_less disj_commute)
      (simp add: is_hex_def char_class_defs)
  ultimately show ?thesis by (simp add: parse_vmem_def toks_def)
qed

theorem line_comment_is_data_witness: "parse_vmem ''// face'' = [(0, 64206)]"
  using line_comment_is_data [of "''face''"]
  by (simp add: is_hex_def char_class_defs int16_def undigits_def hex_val_def)

end
