(* ===== verification/Spec2Isabelle.thy ===== *)
theory Spec2Isabelle
  imports Confine Phases Errors TextWrapProps VmemProps
begin

text \<open>
  A verification library for the Python programs of the repository: \<open>src/vendor.py\<close>, which copies
  source code of other repositories into this one, and \<open>src/sw/vmem_to_mif.py\<close>, which turns the
  memory image of the firmware into the initialisation file of the FPGA's memory.

  \<^bold>\<open>The programs.\<close> \<open>vendor.py\<close> reads a description (\<open>*.vendor.hjson\<close>) and, when there is one, the lock
  file beside it. Without \<open>--update\<close> it reproduces the locked state: it clones the upstream
  repository into a temporary directory, insists on the locked revision, and replaces the target
  directory by the files of the mapping that are not excluded, with the patches applied. With
  \<open>--update\<close>, or without a lock file, it does the same at the revision the description names and
  records the one it got. \<open>--refresh-patches\<close> first exports the patches from a repository of
  patches; \<open>--commit\<close> commits the result with a message that lists the changes, whose references to
  issues are qualified with the name of the upstream repository.

  \<^bold>\<open>Theories and code.\<close> Each definition that models code has the name of its function or class, or
  says in its text which part of one it is.

  \<^item> The run time. \<open>Prelude\<close> holds the lemma collections. \<open>PyText\<close>, \<open>PyNum\<close>, \<open>PyPath\<close>, \<open>PathNorm\<close>,
    \<open>Fnmatch\<close> and \<open>Scan\<close> model what the programs use of \<open>str\<close>, \<open>int\<close>, \<open>os.path\<close>, \<open>pathlib\<close>, \<open>fnmatch\<close>
    and of the iteration of \<open>re\<close>; the order of \<open>Path\<close> objects is an instance of \<open>linorder\<close>, so that
    \<open>sorted\<close> is the library's \<open>sort\<close>; \<open>PyRuntime\<close> has dictionaries, Hjson values and exceptions, and a
    computation that may raise is a value of \<open>exn + 'a\<close>.
  \<^item> The configuration. \<open>Config\<close> has \<open>get_field\<close>, the classes \<open>Upstream\<close>, \<open>PatchRepo\<close>, \<open>Mapping1\<close>, \<open>Mapping\<close>,
    \<open>LockDesc\<close> and \<open>Desc\<close> as records with their constructors, the overrides and the lock file path.
  \<^item> Text. \<open>GitHubRefs\<close> has \<open>github_parse_url\<close> and \<open>github_qualify_references\<close> with the replacement template
    of \<open>re\<close>, and the tests of the file; \<open>TextWrap\<close> has \<open>format_list_to_str\<close> over \<open>textwrap\<close>'s loop, whose
    result is an option, since it never ends when the indentation leaves no room and a text begins with
    white space.
  \<^item> The outside world. \<open>FileTree\<close> is a file system as a tree of directories and regular files;
    \<open>World\<close> adds the working directory and a trace of events, and defines programs (\<open>'a io\<close>: a function
    of the world that returns or raises, and leaves a world) with every action the code uses;
    \<open>CopyTree\<close> is \<open>ignore_patterns\<close> and the copy it guides.
  \<^item> The programs. \<open>VendorOps\<close> has the functions and methods that run \<open>git\<close> or change files, \<open>VendorMain\<close> the
    stages of \<open>main\<close> in their order and the handler of the script; \<open>VmemMif\<close> is \<open>vmem_to_mif.py\<close>.

  \<^bold>\<open>Interfaces.\<close> The store of files (locale \<open>store\<close>, interpreted by \<open>node_at\<close>, \<open>put_at\<close> and \<open>del_at\<close>),
  dictionaries (\<open>py_dict\<close>), splitting and joining (\<open>splitter\<close>) and matching functions that consume text
  (\<open>matcher\<close>, interpreted by the expressions of both programs) are locales; the lemmas of their
  clients rest on the interpretations.

  \<^bold>\<open>What is shown.\<close>

  \<^item> Configuration (\<open>ConfigFacts\<close>, \<open>ConfigProps\<close>): the invariant of a \<open>Desc\<close>, the confinement of mapping paths,
    what \<open>get_path\<close>, the overrides and the name tests decide, and a round trip.
  \<^item> Text (\<open>GitHubProps\<close>, \<open>TextWrapProps\<close>): the exact URLs and references, what is rewritten and that the
    rest is not, that no reference is missed, the organisations for which the replacement fails; widths,
    kept text, and the widths for which the filling returns, raises or never ends.
  \<^item> Import (\<open>CopyTreeProps\<close>, \<open>WorldFacts\<close>, \<open>ImportProps\<close>): exactly the files that are not excluded arrive, at
    the right places, and nothing else is left in the target directory or changed outside of it.
  \<^item> Runs (\<open>VendorProps\<close>, \<open>UpdateProps\<close>, \<open>RunProps\<close>): the locked mode checks the revision, returns and
    reproduces the sources; an update writes the lock file at its place and last, and the next run reads
    from it what was fetched; \<open>--commit\<close> stops at a changed working directory; patches, their refresh and
    the commit, command by command.
  \<^item> All runs, by four logics over the structure of the programs: \<open>Effects\<close> (\<open>emits\<close>: the events a program
    may record), \<open>Phases\<close> (\<open>drives\<close>: the program refines an abstract machine, whose invariants by rule
    induction give the order of the events of every run), \<open>Steps\<close> and \<open>Confine\<close> (\<open>stays\<close>: every step
    happens at an allowed place; the lock file survives the locked mode) and \<open>Errors\<close> (\<open>raises\<close>: the full
    list of the ways a run can fail, and what bad input does).
  \<^item> Memory files (\<open>VmemProps\<close>): the reader inverts a printer of images, words fit in 32 bits, the MIF text
    reads back, the width of addresses is that of the largest one, and a conversion changes nothing
    unless it succeeds.

  \<^bold>\<open>Parameters.\<close> Code outside of the repository is an argument of the definitions (the record \<open>env\<close>): every
  command, all of them \<open>git\<close>, as a function of its arguments, directory, input and file system; the
  choice of a temporary directory; the Hjson library; the cut of a text into chunks by \<open>textwrap\<close>.
  What a property needs of them is a hypothesis of it: that Hjson reads back the document it wrote and
  reports bad text by a \<open>ValueError\<close>, that a temporary directory lies apart from the target and the
  lock file, that \<open>git\<close> leaves the lock file alone, that chunks put together show the text
  (\<open>cuts_text\<close>). The examples (\<open>ex_env\<close> and its variants) are
  concrete instances where these hold, and each witness is a run of them.

  \<^bold>\<open>Bounds.\<close> Nothing is bounded and no fuel is used: every loop of the code is structural recursion or
  has a measure (the length of the text that is left, the components of a path), but for the wrapping
  loop of \<open>textwrap\<close>, a partial function that is shown to return at the width 70 the program uses, and for
  which other widths it does. Python's integers are \<open>nat\<close> or \<open>int\<close>; a word of a memory image is shown to fit in
  32 bits. A character is a byte; the white space, digit and word classes are those of Latin-1.

  \<^bold>\<open>Not modelled.\<close> The split of a command line by \<open>argparse\<close> (the model starts from its parts, with the
  types' checks and the opening of the file), the text of log messages and the final print of the
  converter, \<open>KeyboardInterrupt\<close>, symbolic links, permissions and times of files, and failures of the
  system in the middle of an action. The hardware description, the firmware in C, the test benches
  and the vendored code of the repository are not Python of this project and are left out.

  \<^bold>\<open>Findings.\<close> The replacement template breaks for organisations that start with a digit, after the
  target has been replaced (\<open>GitHubProps\<close>, \<open>UpdateProps\<close>); a failing \<open>git add\<close> is reported by a \<open>TypeError\<close>
  (\<open>Errors\<close>); a description that is not a dictionary is not reported (\<open>Errors\<close>); names that begin
  with two dots are refused, values with an equals sign cannot be overridden, and the description's
  suffix is not anchored (\<open>ConfigProps\<close>); words in a line comment of a memory image are data (\<open>VmemProps\<close>).
\<close>

end
